theory Spec2Isabelle
  imports Main "HOL-Library.Sublist"
begin

section \<open>The project generator of \<open>src/index.js\<close>\<close>

text \<open>
  The generator is one asynchronous function, \<open>createApp\<close>, that asks four questions,
  creates a directory tree, writes up to five files and looks up the latest versions of up
  to four packages. Texts are \<open>string\<close>s (lists of bytes); the templates are copied from
  the source character by character, one line of the definition per line of the template.
\<close>

subsection \<open>Data\<close>

type_synonym path = string

text \<open>What one version lookup resolves to: \<open>dependency.name\<close> and \<open>dependency.version\<close>.\<close>

record dependency =
  name :: string
  version :: string

text \<open>The answers of \<open>inquirer.prompt(questions)\<close>: one field per question.\<close>

record answer =
  name :: string
  useCors :: bool
  useErrorHandler :: bool
  useEnvFile :: bool

text \<open>A JavaScript error value, as far as the generator looks at it: it only prints it.\<close>

datatype error = Error string

text \<open>\<open>Array.prototype.join\<close>: the elements with the separator between them.\<close>

fun join :: "string \<Rightarrow> string list \<Rightarrow> string" where
  "join sep [] = []"
| "join sep [x] = x"
| "join sep (x # y # ys) = x @ sep @ join sep (y # ys)"

subsection \<open>The templates\<close>

definition jsErrorMiddleware :: string where
  \<open>jsErrorMiddleware =
     ''import {envMode} from "../app.js"\<newline>'' @
     ''\<newline>'' @
     ''export const errorMiddleware = (err, req, res, next)=> {\<newline>'' @
     ''\<newline>'' @
     ''  err.message = err.message || "Internal Server Error";\<newline>'' @
     ''  err.statusCode = err.statusCode || 500;\<newline>'' @
     ''  \<newline>'' @
     ''  const response = {\<newline>'' @
     ''    success: false,\<newline>'' @
     ''    message: err.message,\<newline>'' @
     ''  };\<newline>'' @
     ''\<newline>'' @
     ''  if (envMode === "DEVELOPMENT") {\<newline>'' @
     ''    response.error = err;\<newline>'' @
     ''  }\<newline>'' @
     ''\<newline>'' @
     ''  return res.status(err.statusCode).json(response);\<newline>'' @
     ''};\<newline>''\<close>

definition jsErrorHandler :: string where
  \<open>jsErrorHandler =
     '' export default class ErrorHandler extends Error {\<newline>'' @
     ''    constructor(statusCode, message="something went wrong") {\<newline>'' @
     ''      super(message);\<newline>'' @
     ''      this.statusCode = statusCode;\<newline>'' @
     ''    }\<newline>'' @
     ''}''\<close>

text \<open>
  \<open>importLines\<close> and \<open>middlewareLines\<close> start as literals and grow by \<open>push\<close>, in the
  order of the three \<open>if\<close> statements of the source.
\<close>

definition express_import :: string where
  \<open>express_import = ''import express from "express";''\<close>

definition cors_import :: string where
  \<open>cors_import = ''import cors from "cors"''\<close>

definition error_import :: string where
  \<open>error_import = ''import { errorMiddleware } from "./middlewares/error.js"''\<close>

definition dotenv_import :: string where
  \<open>dotenv_import = ''import dotenv from "dotenv";''\<close>

definition json_use :: string where
  \<open>json_use = ''app.use(express.json());''\<close>

definition urlencoded_use :: string where
  \<open>urlencoded_use = ''app.use(express.urlencoded({extended: true}));''\<close>

definition cors_use :: string where
  \<open>cors_use = ''app.use(cors({origin: '' @ [CHR 0x27] @ ''*'' @ [CHR 0x27] @ '', credentials: true}))''\<close>

definition error_use :: string where
  \<open>error_use = ''app.use(errorMiddleware);''\<close>

definition dotenv_config :: string where
  \<open>dotenv_config = ''dotenv.config({path: './env'});''\<close>

definition importLines :: "answer \<Rightarrow> string list" where
  "importLines answer =
     [express_import]
     @ (if useCors answer then [cors_import] else [])
     @ (if useErrorHandler answer then [error_import] else [])
     @ (if useEnvFile answer then [dotenv_import] else [])"

definition middlewareLines :: "answer \<Rightarrow> string list" where
  "middlewareLines answer =
     [json_use, urlencoded_use]
     @ (if useCors answer then [cors_use] else [])"

definition envFileContent :: string where
  "envFileContent = ''PORT=5000''"

definition baseFileContent :: "answer \<Rightarrow> string" where
  \<open>baseFileContent answer =
     join ''\<newline>'' (importLines answer) @ ''\<newline>'' @
     ''        '' @ (if useEnvFile answer then dotenv_config else '''') @ ''\<newline>'' @
     ''        export const envMode = process.env.NODE_ENV?.trim() || 'DEVELOPMENT';\<newline>'' @
     ''        const port = process.env.PORT || 3000;\<newline>'' @
     ''\<newline>'' @
     ''        const app = express();\<newline>'' @
     ''\<newline>'' @
     ''        '' @ join ''\<newline>'' (middlewareLines answer) @ ''\<newline>'' @
     ''\<newline>'' @
     ''        app.get('/', (req,res) => {\<newline>'' @
     ''            res.send("Hello World!");\<newline>'' @
     ''        });\<newline>'' @
     ''\<newline>'' @
     ''        // your routes here\<newline>'' @
     ''\<newline>'' @
     ''        app.get("*", (req, res) => {\<newline>'' @
     ''            res.status(404).json({\<newline>'' @
     ''                success: false,\<newline>'' @
     ''                message: 'page not found'\<newline>'' @
     ''            })\<newline>'' @
     ''        });\<newline>'' @
     ''\<newline>'' @
     ''        '' @ (if useErrorHandler answer then error_use else '''') @ ''\<newline>'' @
     ''\<newline>'' @
     ''        app.listen(port, ()=> {\<newline>'' @
     ''            console.log('Server is working on port:'+port+' in '+envMode+' Mode. ')\<newline>'' @
     ''        });\<newline>'' @
     ''        ''\<close>

text \<open>One entry of a dependency object: \<open>`"${dependency.name}": "${dependency.version}"`\<close>.\<close>

definition entry :: "dependency \<Rightarrow> string" where
  \<open>entry dependency =
     ''"'' @ dependency.name dependency @ ''": "'' @ version dependency @ ''"''\<close>

text \<open>\<open>JSON.stringify\<close> of the two scripts, a constant.\<close>

definition npmScriptjs :: string where
  \<open>npmScriptjs =
     ''{"start":"set NODE_ENV=PRODUCTION & node app.js","dev":"npx nodemon app.js"}''\<close>

definition packageJsonContent :: "string \<Rightarrow> dependency list \<Rightarrow> dependency list \<Rightarrow> string" where
  \<open>packageJsonContent projectName dependeciesRaw devDependenciesRaw =
     ''{\<newline>'' @
     ''        "name": "'' @ projectName @ ''",\<newline>'' @
     ''        "version": "1.0.0",\<newline>'' @
     ''        "description": "",\<newline>'' @
     ''        "main": "app.js",\<newline>'' @
     ''        "scripts": '' @ npmScriptjs @ '',\<newline>'' @
     ''        "keywords": [],\<newline>'' @
     ''        "author": "",\<newline>'' @
     ''        "type": "module",\<newline>'' @
     ''        "license": "ISC",\<newline>'' @
     ''        "dependencies": {\<newline>'' @
     ''            '' @ join '','' (map entry dependeciesRaw) @ ''\<newline>'' @
     ''        },\<newline>'' @
     ''        "devDependencies": {\<newline>'' @
     ''            '' @ join '','' (map entry devDependenciesRaw) @ ''\<newline>'' @
     ''        },\<newline>'' @
     ''    }''\<close>

subsection \<open>The world outside\<close>

text \<open>
  The generator calls \<open>inquirer.prompt\<close>, \<open>getLatestVersion\<close> (imported from
  \<open>./getLatestVersion/latestVersion.js\<close>) and three functions of Node's \<open>fs\<close>. They are
  parameters of the model: the answers or the error the prompt ends with, what each lookup
  settles to (\<open>Inl\<close> a rejection), and a file system of any type \<open>'fs\<close> whose calls return
  the new file system or throw.

  The lookups run at the same time, so the order in which they settle is a parameter too.
  One fact of that order matters. \<open>Promise.all(dependenciesPromise)\<close> (line 145) gives
  every promise of the first batch a handler in the same turn in which the lookups are
  started (lines 138 to 143); the promise of nodemon gets one only when line 146 runs, after
  the first batch is fulfilled. \<open>nodemon_settles_first\<close> says that the lookup of nodemon
  settles before the first batch does: a rejection of it then meets no handler.
\<close>

record 'fs env =
  prompt :: "error + answer"
  getLatestVersion :: "string \<Rightarrow> error + dependency"
  nodemon_settles_first :: bool
  existsSync :: "'fs \<Rightarrow> path \<Rightarrow> bool"
  mkdirSync :: "'fs \<Rightarrow> path \<Rightarrow> error + 'fs"
  writeFileSync :: "'fs \<Rightarrow> path \<Rightarrow> string \<Rightarrow> error + 'fs"

text \<open>
  What a run does, in order: the texts and errors given to \<open>console.log\<close>, the calls of
  \<open>fs.mkdirSync\<close> and \<open>fs.writeFileSync\<close> (recorded when made, before they return or
  throw) and the lookups started.
\<close>

datatype event =
    Log string
  | LogError error
  | MkdirSync path
  | WriteFileSync path string
  | GetLatestVersion string

text \<open>
  The state of a run: the file system, the events so far, the exception in flight (every
  later statement of the \<open>try\<close> block is skipped while there is one) and the rejections
  that met no handler. Node, from version 15 on, ends the process with code 1 on such a
  rejection.
\<close>

record 'fs state =
  fsys :: 'fs
  trace :: "event list"
  thrown :: "error option"
  unhandled :: "error list"

definition seq :: "('s \<Rightarrow> 's) list \<Rightarrow> 's \<Rightarrow> 's" where
  "seq steps st = fold (\<lambda>f. f) steps st"

definition console_log :: "string \<Rightarrow> 'fs state \<Rightarrow> 'fs state" where
  "console_log s st =
     (if thrown st = None then st\<lparr>trace := trace st @ [Log s]\<rparr> else st)"

definition fs_mkdirSync :: "'fs env \<Rightarrow> path \<Rightarrow> 'fs state \<Rightarrow> 'fs state" where
  "fs_mkdirSync E p st =
     (if thrown st = None then
        (case mkdirSync E (fsys st) p of
           Inl err \<Rightarrow> st\<lparr>trace := trace st @ [MkdirSync p], thrown := Some err\<rparr>
         | Inr fs' \<Rightarrow> st\<lparr>fsys := fs', trace := trace st @ [MkdirSync p]\<rparr>)
      else st)"

definition fs_writeFileSync :: "'fs env \<Rightarrow> path \<Rightarrow> string \<Rightarrow> 'fs state \<Rightarrow> 'fs state" where
  "fs_writeFileSync E p content st =
     (if thrown st = None then
        (case writeFileSync E (fsys st) p content of
           Inl err \<Rightarrow> st\<lparr>trace := trace st @ [WriteFileSync p content], thrown := Some err\<rparr>
         | Inr fs' \<Rightarrow> st\<lparr>fsys := fs', trace := trace st @ [WriteFileSync p content]\<rparr>)
      else st)"

text \<open>Starting lookups only records them: what they settle to is read when they are awaited.\<close>

definition start_lookups :: "string list \<Rightarrow> 'fs state \<Rightarrow> 'fs state" where
  "start_lookups names st =
     (if thrown st = None then st\<lparr>trace := trace st @ map GetLatestVersion names\<rparr> else st)"

text \<open>
  \<open>Promise.all\<close>: every value, or a rejection as soon as one promise rejects. Which of
  several rejections comes first is a matter of time; the model takes the first in the
  order of the array, and no property below depends on which one it is.
\<close>

fun Promise_all :: "(error + 'a) list \<Rightarrow> error + 'a list" where
  "Promise_all [] = Inr []"
| "Promise_all (Inl err # ps) = Inl err"
| "Promise_all (Inr v # ps) =
     (case Promise_all ps of Inl err \<Rightarrow> Inl err | Inr vs \<Rightarrow> Inr (v # vs))"

fun rejections :: "(error + 'a) list \<Rightarrow> error list" where
  "rejections [] = []"
| "rejections (Inl err # ps) = err # rejections ps"
| "rejections (Inr v # ps) = rejections ps"

text \<open>
  \<open>await p\<close>: go on with the value of \<open>p\<close>, or throw its rejection. \<open>others\<close> are the
  rejections of the promises started and not yet given a handler: when the \<open>await\<close> throws,
  the rest of the \<open>try\<close> block never runs, so they never get one.
\<close>

definition await ::
  "error + 'a \<Rightarrow> error list \<Rightarrow> ('a \<Rightarrow> 'fs state \<Rightarrow> 'fs state) \<Rightarrow> 'fs state \<Rightarrow> 'fs state" where
  "await p others k st =
     (if thrown st = None then
        (case p of
           Inl err \<Rightarrow> st\<lparr>thrown := Some err, unhandled := unhandled st @ others\<rparr>
         | Inr v \<Rightarrow> k v st)
      else st)"

text \<open>\<open>catch (error) { console.log(error); }\<close>, and the same handler of \<open>.catch\<close>.\<close>

definition catch_log :: "'fs state \<Rightarrow> 'fs state" where
  "catch_log st =
     (case thrown st of
        None \<Rightarrow> st
      | Some err \<Rightarrow> st\<lparr>trace := trace st @ [LogError err], thrown := None\<rparr>)"

subsection \<open>\<open>createApp\<close>\<close>

text \<open>The texts printed; an emoji is its four bytes, and \<open>chalk\<close> only colours a text.\<close>

definition rocket :: string where
  "rocket = [CHR 0xF0, CHR 0x9F, CHR 0x9A, CHR 0x80]"

definition party :: string where
  "party = [CHR 0xF0, CHR 0x9F, CHR 0x8E, CHR 0x89]"

definition banner :: string where
  "banner = ''Create an Express.js project from this CLI TOOL! '' @ rocket"

definition summary :: "string \<Rightarrow> string list" where
  \<open>summary projectName =
     [''\<newline>'',
      party @ '' Project '' @ [CHR 0x27] @ projectName @ [CHR 0x27] @ '' created successfully! '' @ party,
      ''\<newline>'',
      ''Next Steps:'',
      ''-> cd '' @ projectName,
      ''-> npm install \<newline>'',
      ''Start your server: '',
      ''1-> npm run dev '' @ rocket @ ''\<newline>'']\<close>

text \<open>The packages looked up, in the order the promises are pushed.\<close>

definition dependenciesNames :: "answer \<Rightarrow> string list" where
  "dependenciesNames answer =
     [''express'']
     @ (if useCors answer then [''cors''] else [])
     @ (if useEnvFile answer then [''dotenv''] else [])"

definition devDependenciesNames :: "string list" where
  "devDependenciesNames = [''nodemon'']"

definition dependenciesPromise :: "'fs env \<Rightarrow> answer \<Rightarrow> (error + dependency) list" where
  "dependenciesPromise E answer = map (getLatestVersion E) (dependenciesNames answer)"

definition devDependenciesPromise :: "'fs env \<Rightarrow> (error + dependency) list" where
  "devDependenciesPromise E = map (getLatestVersion E) devDependenciesNames"

definition projectDir :: "answer \<Rightarrow> path" where
  "projectDir answer = ''./'' @ answer.name answer"

definition fileExtension :: string where
  "fileExtension = ''js''"

text \<open>Lines 71 to 79: the tree is created only when the project root does not exist.\<close>

definition make_dirs :: "'fs env \<Rightarrow> path \<Rightarrow> 'fs state \<Rightarrow> 'fs state" where
  "make_dirs E dir st =
     (if \<not> existsSync E (fsys st) dir then
        seq [fs_mkdirSync E dir,
             fs_mkdirSync E (dir @ ''/routes''),
             fs_mkdirSync E (dir @ ''/controllers''),
             fs_mkdirSync E (dir @ ''/utils''),
             fs_mkdirSync E (dir @ ''/middlewares''),
             fs_mkdirSync E (dir @ ''/lib''),
             fs_mkdirSync E (dir @ ''/tests'')] st
      else st)"

text \<open>Lines 81 to 84.\<close>

definition write_error_files :: "'fs env \<Rightarrow> answer \<Rightarrow> 'fs state \<Rightarrow> 'fs state" where
  "write_error_files E answer st =
     (if useErrorHandler answer then
        seq [fs_writeFileSync E (projectDir answer @ ''/middlewares/error.js'') jsErrorMiddleware,
             fs_writeFileSync E (projectDir answer @ ''/utils/errorHandler.js'') jsErrorHandler] st
      else st)"

text \<open>Lines 101 to 105, the write of the environment file.\<close>

definition write_env_file :: "'fs env \<Rightarrow> answer \<Rightarrow> 'fs state \<Rightarrow> 'fs state" where
  "write_env_file E answer st =
     (if useEnvFile answer then
        fs_writeFileSync E (projectDir answer @ ''/.env'') envFileContent st
      else st)"

text \<open>Lines 145 to 188: both batches are awaited, then the manifest is written.\<close>

definition await_batches :: "'fs env \<Rightarrow> answer \<Rightarrow> 'fs state \<Rightarrow> 'fs state" where
  "await_batches E answer =
     await (Promise_all (dependenciesPromise E answer)) (rejections (devDependenciesPromise E))
       (\<lambda>dependeciesRaw.
          await (Promise_all (devDependenciesPromise E)) []
            (\<lambda>devDependenciesRaw.
               seq (fs_writeFileSync E (projectDir answer @ ''/package.json'')
                      (packageJsonContent (answer.name answer) dependeciesRaw devDependenciesRaw)
                    # map console_log (summary (answer.name answer)))))"

text \<open>
  While the first \<open>await\<close> waits, a rejection of the nodemon lookup meets no handler and
  ends the process: nothing of the program runs after it, the \<open>catch\<close> block included.
\<close>

definition write_manifest :: "'fs env \<Rightarrow> answer \<Rightarrow> 'fs state \<Rightarrow> 'fs state" where
  "write_manifest E answer st =
     (if thrown st = None \<and> nodemon_settles_first E \<and> rejections (devDependenciesPromise E) \<noteq> []
      then st\<lparr>unhandled := unhandled st @ rejections (devDependenciesPromise E)\<rparr>
      else await_batches E answer st)"

text \<open>The body of the \<open>try\<close> block once the answers are there.\<close>

definition generate :: "'fs env \<Rightarrow> answer \<Rightarrow> 'fs state \<Rightarrow> 'fs state" where
  "generate E answer =
     seq [make_dirs E (projectDir answer),
          write_error_files E answer,
          write_env_file E answer,
          fs_writeFileSync E (projectDir answer @ ''/app.'' @ fileExtension) (baseFileContent answer),
          start_lookups (dependenciesNames answer),
          start_lookups devDependenciesNames,
          write_manifest E answer]"

text \<open>The \<open>try\<close> block, and \<open>createApp\<close> with its \<open>catch\<close>.\<close>

definition createApp_try :: "'fs env \<Rightarrow> 'fs state \<Rightarrow> 'fs state" where
  "createApp_try E st = seq [console_log banner, await (prompt E) [] (generate E)] st"

definition createApp :: "'fs env \<Rightarrow> 'fs state \<Rightarrow> 'fs state" where
  "createApp E st = catch_log (createApp_try E st)"

text \<open>
  The module: \<open>createApp().catch(...)\<close> from a fresh process. Nothing in the source sets
  an exit code or ends the process, so the process ends with code 0 unless an error is left
  uncaught or a rejection met no handler.
\<close>

definition fresh :: "'fs \<Rightarrow> 'fs state" where
  "fresh fs = \<lparr>fsys = fs, trace = [], thrown = None, unhandled = []\<rparr>"

definition main :: "'fs env \<Rightarrow> 'fs \<Rightarrow> 'fs state" where
  "main E fs = catch_log (createApp E (fresh fs))"

definition exitCode :: "'fs state \<Rightarrow> nat" where
  "exitCode st = (if thrown st = None \<and> unhandled st = [] then 0 else 1)"

subsection \<open>A file system to run the generator on\<close>

text \<open>
  The directories and the files of a disk, by path. A directory or a file can be created
  only in a directory that exists, and \<open>mkdirSync\<close> refuses a path that exists: the errors
  \<open>ENOENT\<close>, \<open>ENOTDIR\<close>, \<open>EEXIST\<close> and \<open>EISDIR\<close> of Node. A path names a directory with
  or without slashes at its end; paths are compared as texts otherwise.
\<close>

record disk =
  dirs :: "path list"
  files :: "path \<rightharpoonup> string"

definition normal :: "path \<Rightarrow> path" where
  "normal p =
     (if dropWhile (\<lambda>c. c = CHR ''/'') (rev p) = [] then p
      else rev (dropWhile (\<lambda>c. c = CHR ''/'') (rev p)))"

definition dirname :: "path \<Rightarrow> path" where
  "dirname p =
     (if CHR ''/'' \<in> set p
      then normal (rev (dropWhile (\<lambda>c. c \<noteq> CHR ''/'') (rev p)))
      else ''.'')"

definition disk_existsSync :: "disk \<Rightarrow> path \<Rightarrow> bool" where
  "disk_existsSync d p = (normal p \<in> set (dirs d) \<or> files d p \<noteq> None)"

definition disk_mkdirSync :: "disk \<Rightarrow> path \<Rightarrow> error + disk" where
  "disk_mkdirSync d p =
     (if disk_existsSync d p then Inl (Error ''EEXIST'')
      else if files d (dirname (normal p)) \<noteq> None then Inl (Error ''ENOTDIR'')
      else if dirname (normal p) \<notin> set (dirs d) then Inl (Error ''ENOENT'')
      else Inr (d\<lparr>dirs := dirs d @ [normal p]\<rparr>))"

definition disk_writeFileSync :: "disk \<Rightarrow> path \<Rightarrow> string \<Rightarrow> error + disk" where
  "disk_writeFileSync d p content =
     (if normal p \<in> set (dirs d) then Inl (Error ''EISDIR'')
      else if files d (dirname p) \<noteq> None then Inl (Error ''ENOTDIR'')
      else if dirname p \<notin> set (dirs d) then Inl (Error ''ENOENT'')
      else Inr (d\<lparr>files := (files d)(p \<mapsto> content)\<rparr>))"

text \<open>
  The generator on such a disk; the lookup of nodemon settles after the first batch,
  unless said otherwise.
\<close>

definition on_disk :: "error + answer \<Rightarrow> (string \<Rightarrow> error + dependency) \<Rightarrow> disk env" where
  "on_disk answers registry =
     \<lparr>prompt = answers, getLatestVersion = registry, nodemon_settles_first = False,
      existsSync = disk_existsSync, mkdirSync = disk_mkdirSync,
      writeFileSync = disk_writeFileSync\<rparr>"


text \<open>An empty working directory, and one where an earlier project \<open>demo\<close> lost its subdirectories.\<close>

definition empty_disk :: disk where
  "empty_disk = \<lparr>dirs = [''.''], files = Map.empty\<rparr>"

definition stale_disk :: disk where
  "stale_disk = \<lparr>dirs = [''.'', ''./demo''], files = Map.empty\<rparr>"

text \<open>The answers and the registry of the example of the specification.\<close>

definition demo :: answer where
  "demo = \<lparr>answer.name = ''demo'', useCors = True, useErrorHandler = True, useEnvFile = True\<rparr>"

definition demo_registry :: "string \<Rightarrow> error + dependency" where
  "demo_registry n =
     (if n = ''express'' then Inr \<lparr>dependency.name = ''express'', version = ''4.18.0''\<rparr>
      else if n = ''cors'' then Inr \<lparr>dependency.name = ''cors'', version = ''2.8.5''\<rparr>
      else if n = ''dotenv'' then Inr \<lparr>dependency.name = ''dotenv'', version = ''16.0.0''\<rparr>
      else if n = ''nodemon'' then Inr \<lparr>dependency.name = ''nodemon'', version = ''3.0.0''\<rparr>
      else Inl (Error ''404''))"

text \<open>A registry that does not know \<open>cors\<close>.\<close>

definition broken_registry :: "string \<Rightarrow> error + dependency" where
  "broken_registry n = (if n = ''cors'' then Inl (Error ''404'') else demo_registry n)"

text \<open>The same answers with every option declined, and a working directory already in use.\<close>

definition plain :: answer where
  "plain = \<lparr>answer.name = ''demo'', useCors = False, useErrorHandler = False, useEnvFile = False\<rparr>"

definition busy_disk :: disk where
  "busy_disk = \<lparr>dirs = [''.'', ''./old''], files = [''./notes.txt'' \<mapsto> ''x'']\<rparr>"

text \<open>What the lookups of the example resolve to, batch by batch.\<close>

definition demo_dependencies :: "dependency list" where
  "demo_dependencies =
     [\<lparr>dependency.name = ''express'', version = ''4.18.0''\<rparr>,
      \<lparr>dependency.name = ''cors'', version = ''2.8.5''\<rparr>,
      \<lparr>dependency.name = ''dotenv'', version = ''16.0.0''\<rparr>]"

definition demo_devDependencies :: "dependency list" where
  "demo_devDependencies = [\<lparr>dependency.name = ''nodemon'', version = ''3.0.0''\<rparr>]"

text \<open>A registry that knows more packages and resolves the four of the example alike.\<close>

definition other_registry :: "string \<Rightarrow> error + dependency" where
  "other_registry n =
     (if n = ''left-pad'' then Inr \<lparr>dependency.name = ''left-pad'', version = ''1.3.0''\<rparr>
      else demo_registry n)"

text \<open>The errors a run printed, and the manifest the example expects.\<close>

definition logged_errors :: "'fs state \<Rightarrow> error list" where
  "logged_errors st = concat (map (\<lambda>ev. case ev of LogError err \<Rightarrow> [err] | _ \<Rightarrow> []) (trace st))"

definition demo_manifest :: string where
  \<open>demo_manifest =
     ''{\<newline>'' @
     ''        "name": "demo",\<newline>'' @
     ''        "version": "1.0.0",\<newline>'' @
     ''        "description": "",\<newline>'' @
     ''        "main": "app.js",\<newline>'' @
     ''        "scripts": {"start":"set NODE_ENV=PRODUCTION & node app.js","dev":"npx nodemon app.js"},\<newline>'' @
     ''        "keywords": [],\<newline>'' @
     ''        "author": "",\<newline>'' @
     ''        "type": "module",\<newline>'' @
     ''        "license": "ISC",\<newline>'' @
     ''        "dependencies": {\<newline>'' @
     ''            "express": "4.18.0","cors": "2.8.5","dotenv": "16.0.0"\<newline>'' @
     ''        },\<newline>'' @
     ''        "devDependencies": {\<newline>'' @
     ''            "nodemon": "3.0.0"\<newline>'' @
     ''        },\<newline>'' @
     ''    }''\<close>





text \<open>
  Reading the entry-point file: the text after the first occurrence of a pattern, the path
  argument of its first call \<open>dotenv.config({path: '...'})\<close>, and the file a relative path
  names when the generated project runs in its root.
\<close>

fun text_after :: "string \<Rightarrow> string \<Rightarrow> string option" where
  "text_after pat [] = (if pat = [] then Some [] else None)"
| "text_after pat (c # cs) =
     (if prefix pat (c # cs) then Some (drop (length pat) (c # cs)) else text_after pat cs)"

definition config_path :: "string \<Rightarrow> string option" where
  "config_path text =
     map_option (takeWhile (\<lambda>c. c \<noteq> CHR 0x27))
       (text_after (''dotenv.config({path: '' @ [CHR 0x27]) text)"

definition under :: "path \<Rightarrow> path \<Rightarrow> path" where
  "under dir p = dir @ ''/'' @ (if prefix ''./'' p then drop 2 p else p)"

subsection \<open>The error middleware the generator writes\<close>

text \<open>
  The text \<open>jsErrorMiddleware\<close> is a JavaScript module with one function,
  \<open>errorMiddleware(err, req, res, next)\<close>. The function is modelled on the values it
  touches: \<open>err.message\<close> and \<open>err.statusCode\<close>, any JavaScript value each (numbers are
  integers here), the binding \<open>envMode\<close> imported from \<open>app.js\<close>, and what it hands to
  \<open>res.status(...).json(...)\<close>.
\<close>

datatype jsval = JUndefined | JNull | JBool bool | JNumber int | JString string

text \<open>What \<open>||\<close> tests: \<open>undefined\<close>, \<open>null\<close>, \<open>false\<close>, \<open>0\<close> and \<open>""\<close> are falsy.\<close>

fun truthy :: "jsval \<Rightarrow> bool" where
  "truthy JUndefined = False"
| "truthy JNull = False"
| "truthy (JBool b) = b"
| "truthy (JNumber n) = (n \<noteq> 0)"
| "truthy (JString s) = (s \<noteq> [])"

definition js_or :: "jsval \<Rightarrow> jsval \<Rightarrow> jsval" where
  "js_or a b = (if truthy a then a else b)"

text \<open>An error object: the two properties the middleware reads, and whatever else it has.\<close>

record err =
  message :: jsval
  statusCode :: jsval

text \<open>
  What Express passes as \<open>err\<close> is an object or a primitive (\<open>next("boom")\<close>). The
  module is an ES module, so strict: assigning a property of a primitive throws.
\<close>

datatype 'a passed = Object "'a err_scheme" | Primitive jsval

datatype js_exception = TypeError

text \<open>The object \<open>response\<close>, whose \<open>error\<close> property is set in one branch only.\<close>

record 'a response =
  success :: bool
  message :: jsval
  error :: "'a err_scheme option"

text \<open>The call \<open>res.status(err.statusCode).json(response)\<close>.\<close>

record 'a reply =
  status :: jsval
  json :: "'a response"

definition errorMiddleware :: "string \<Rightarrow> 'a passed \<Rightarrow> js_exception + 'a reply" where
  "errorMiddleware envMode v =
     (case v of
        Primitive p \<Rightarrow> Inl TypeError
      | Object err0 \<Rightarrow>
          (let err1 = err0\<lparr>err.message := js_or (err.message err0) (JString ''Internal Server Error'')\<rparr>;
               err2 = err1\<lparr>statusCode := js_or (statusCode err1) (JNumber 500)\<rparr>;
               response = \<lparr>success = False, message = err.message err2, error = None\<rparr>;
               response' = (if envMode = ''DEVELOPMENT''
                            then response\<lparr>error := Some err2\<rparr> else response)
           in Inr \<lparr>status = statusCode err2, json = response'\<rparr>))"

text \<open>
  \<open>envMode\<close> in the entry-point file: \<open>process.env.NODE_ENV?.trim() || 'DEVELOPMENT'\<close>
  (\<open>trim\<close> on the white space of ASCII). The \<open>start\<close> script of the manifest sets
  \<open>NODE_ENV=PRODUCTION\<close>.
\<close>

definition is_space :: "char \<Rightarrow> bool" where
  "is_space c = (c \<in> set [CHR 0x09, CHR 0x0A, CHR 0x0B, CHR 0x0C, CHR 0x0D, CHR 0x20])"

definition trim :: "string \<Rightarrow> string" where
  "trim s = rev (dropWhile is_space (rev (dropWhile is_space s)))"

definition envMode :: "string option \<Rightarrow> string" where
  "envMode NODE_ENV =
     (case NODE_ENV of
        None \<Rightarrow> ''DEVELOPMENT''
      | Some v \<Rightarrow> (if trim v = [] then ''DEVELOPMENT'' else trim v))"

definition boom :: err where
  "boom = \<lparr>err.message = JString ''boom'', statusCode = JNumber 400\<rparr>"

definition bare :: err where
  "bare = \<lparr>err.message = JUndefined, statusCode = JUndefined\<rparr>"

subsection \<open>JSON texts\<close>

text \<open>
  A recogniser of the grammar of RFC 8259, on bytes: \<open>parse_value\<close> reads one value at the
  head of a text and returns the rest of the text, or \<open>None\<close> when there is no value
  there. The first argument bounds the depth of the recursion; the length of the text is
  enough, since every call reads a character before it recurs.
\<close>

definition is_ws :: "char \<Rightarrow> bool" where
  "is_ws c = (c = CHR 0x20 \<or> c = CHR 0x09 \<or> c = CHR 0x0A \<or> c = CHR 0x0D)"

definition skip_ws :: "string \<Rightarrow> string" where
  "skip_ws s = dropWhile is_ws s"

definition is_digit :: "char \<Rightarrow> bool" where
  "is_digit c = (c \<in> set ''0123456789'')"

definition is_hex :: "char \<Rightarrow> bool" where
  "is_hex c = (c \<in> set ''0123456789abcdefABCDEF'')"

text \<open>
  A string after its opening quotation mark: unescaped characters from \<open>0x20\<close> on, the
  two-character escapes, and \<open>\u\<close> with four hexadecimal digits.
\<close>

fun string_body :: "string \<Rightarrow> string option" where
  "string_body [] = None"
| "string_body (c # cs) =
     (if c = CHR 0x22 then Some cs
      else if c = CHR 0x5C then
        (case cs of
           [] \<Rightarrow> None
         | e # r \<Rightarrow>
             if e \<in> set [CHR 0x22, CHR 0x5C, CHR ''/'', CHR ''b'', CHR ''f'', CHR ''n'', CHR ''r'', CHR ''t'']
             then string_body r
             else if e = CHR ''u'' then
               (case r of
                  h1 # h2 # h3 # h4 # r' \<Rightarrow>
                    if is_hex h1 \<and> is_hex h2 \<and> is_hex h3 \<and> is_hex h4 then string_body r'
                    else None
                | _ \<Rightarrow> None)
             else None)
      else if (of_char c :: nat) < 0x20 then None
      else string_body cs)"

definition parse_string :: "string \<Rightarrow> string option" where
  "parse_string s =
     (case s of [] \<Rightarrow> None | c # cs \<Rightarrow> if c = CHR 0x22 then string_body cs else None)"

text \<open>A number: an optional minus, the integer part, an optional fraction and exponent.\<close>

definition parse_int :: "string \<Rightarrow> string option" where
  "parse_int s =
     (case s of
        [] \<Rightarrow> None
      | c # cs \<Rightarrow>
          if c = CHR ''0'' then Some cs
          else if is_digit c then Some (dropWhile is_digit cs)
          else None)"

definition parse_frac :: "string \<Rightarrow> string option" where
  "parse_frac s =
     (case s of
        [] \<Rightarrow> Some s
      | c # cs \<Rightarrow>
          if c = CHR ''.'' then
            (case cs of
               [] \<Rightarrow> None
             | d # r \<Rightarrow> if is_digit d then Some (dropWhile is_digit r) else None)
          else Some s)"

definition parse_exp :: "string \<Rightarrow> string option" where
  "parse_exp s =
     (case s of
        [] \<Rightarrow> Some s
      | c # cs \<Rightarrow>
          if c = CHR ''e'' \<or> c = CHR ''E'' then
            (case (case cs of
                     [] \<Rightarrow> cs
                   | g # r \<Rightarrow> if g = CHR ''+'' \<or> g = CHR ''-'' then r else cs) of
               [] \<Rightarrow> None
             | d # r \<Rightarrow> if is_digit d then Some (dropWhile is_digit r) else None)
          else Some s)"

definition parse_number :: "string \<Rightarrow> string option" where
  "parse_number s =
     (case parse_int (case s of [] \<Rightarrow> s | c # cs \<Rightarrow> if c = CHR ''-'' then cs else s) of
        None \<Rightarrow> None
      | Some s1 \<Rightarrow> (case parse_frac s1 of None \<Rightarrow> None | Some s2 \<Rightarrow> parse_exp s2))"

definition parse_literal :: "string \<Rightarrow> string option" where
  "parse_literal s =
     (if prefix ''true'' s then Some (drop 4 s)
      else if prefix ''false'' s then Some (drop 5 s)
      else if prefix ''null'' s then Some (drop 4 s)
      else None)"

text \<open>
  Values, the members of an object after its opening brace, and the elements of an array
  after its opening bracket; the last two read the closing character too.
\<close>

fun parse_value :: "nat \<Rightarrow> string \<Rightarrow> string option"
  and parse_members :: "nat \<Rightarrow> string \<Rightarrow> string option"
  and parse_elements :: "nat \<Rightarrow> string \<Rightarrow> string option" where
  "parse_value 0 s = None"
| "parse_value (Suc n) s =
     (case s of
        [] \<Rightarrow> None
      | c # cs \<Rightarrow>
          if c = CHR ''{'' then
            (case skip_ws cs of
               [] \<Rightarrow> None
             | d # r \<Rightarrow> if d = CHR ''}'' then Some r else parse_members n (d # r))
          else if c = CHR ''['' then
            (case skip_ws cs of
               [] \<Rightarrow> None
             | d # r \<Rightarrow> if d = CHR '']'' then Some r else parse_elements n (d # r))
          else if c = CHR 0x22 then string_body cs
          else if c = CHR ''-'' \<or> is_digit c then parse_number s
          else parse_literal s)"
| "parse_members 0 s = None"
| "parse_members (Suc n) s =
     (case parse_string s of
        None \<Rightarrow> None
      | Some r1 \<Rightarrow>
          (case skip_ws r1 of
             [] \<Rightarrow> None
           | c # r2 \<Rightarrow>
               if c = CHR '':'' then
                 (case parse_value n (skip_ws r2) of
                    None \<Rightarrow> None
                  | Some r3 \<Rightarrow>
                      (case skip_ws r3 of
                         [] \<Rightarrow> None
                       | d # r4 \<Rightarrow>
                           if d = CHR '','' then parse_members n (skip_ws r4)
                           else if d = CHR ''}'' then Some r4
                           else None))
               else None))"
| "parse_elements 0 s = None"
| "parse_elements (Suc n) s =
     (case parse_value n (skip_ws s) of
        None \<Rightarrow> None
      | Some r1 \<Rightarrow>
          (case skip_ws r1 of
             [] \<Rightarrow> None
           | d # r2 \<Rightarrow>
               if d = CHR '','' then parse_elements n (skip_ws r2)
               else if d = CHR '']'' then Some r2
               else None))"

text \<open>A JSON text: white space, one value, white space.\<close>

definition valid_json :: "string \<Rightarrow> bool" where
  "valid_json s =
     (case parse_value (length s) (skip_ws s) of
        None \<Rightarrow> False
      | Some r \<Rightarrow> skip_ws r = [])"

text \<open>The text of a manifest without the comma after its last object.\<close>

definition drop_last_comma :: "string \<Rightarrow> string" where
  "drop_last_comma s = take (length s - 7) s @ drop (length s - 6) s"

subsection \<open>Notions used in the proofs\<close>

text \<open>
  \<open>adds Q f\<close>: the step \<open>f\<close> only appends events, each of which satisfies \<open>Q\<close>.
  \<open>skips f\<close>: the step \<open>f\<close> does nothing while an exception is in flight.
\<close>

definition adds :: "(event \<Rightarrow> bool) \<Rightarrow> ('fs state \<Rightarrow> 'fs state) \<Rightarrow> bool" where
  "adds Q f = (\<forall>st. \<exists>es. trace (f st) = trace st @ es \<and> list_all Q es)"

definition skips :: "('fs state \<Rightarrow> 'fs state) \<Rightarrow> bool" where
  "skips f = (\<forall>st. thrown st \<noteq> None \<longrightarrow> f st = st)"





text \<open>
  A text without its trailing white space; what the text of a JSON value looks like at
  its end; and what the text between the braces of an object looks like at its end.
\<close>

definition rstrip :: "string \<Rightarrow> string" where
  "rstrip s = rev (dropWhile is_ws (rev s))"

definition closes :: "string \<Rightarrow> bool" where
  "closes u =
     (u \<noteq> [] \<and> \<not> is_ws (last u) \<and> last u \<noteq> CHR '',''
      \<and> (last u = CHR ''}'' \<longrightarrow>
            rstrip (butlast u) \<noteq> [] \<and> last (rstrip (butlast u)) \<noteq> CHR '',''))"

definition inner :: "string \<Rightarrow> bool" where
  "inner u = (rstrip u \<noteq> [] \<and> last (rstrip u) \<noteq> CHR '','')"

section \<open>Properties\<close>

subsection \<open>Events of a run\<close>

lemma addsI: "(\<And>st. \<exists>es. trace (f st) = trace st @ es \<and> list_all Q es) \<Longrightarrow> adds Q f"
  by (simp add: adds_def)

lemma addsD: "adds Q f \<Longrightarrow> \<exists>es. trace (f st) = trace st @ es \<and> list_all Q es"
  by (simp add: adds_def)

lemma adds_console_log: "Q (Log s) \<Longrightarrow> adds Q (console_log s)"
  by (simp add: adds_def console_log_def)

lemma adds_mkdir: "Q (MkdirSync p) \<Longrightarrow> adds Q (fs_mkdirSync E p)"
  by (simp add: adds_def fs_mkdirSync_def split: sum.split)

lemma adds_write: "Q (WriteFileSync p c) \<Longrightarrow> adds Q (fs_writeFileSync E p c)"
  by (simp add: adds_def fs_writeFileSync_def split: sum.split)

lemma adds_lookups: "(\<And>n. n \<in> set ns \<Longrightarrow> Q (GetLatestVersion n)) \<Longrightarrow> adds Q (start_lookups ns)"
  by (simp add: adds_def start_lookups_def list_all_iff)

lemma adds_id: "adds Q (\<lambda>st. st)"
  by (simp add: adds_def)

lemma adds_comp: "adds Q f \<Longrightarrow> adds Q g \<Longrightarrow> adds Q (\<lambda>st. g (f st))"
  unfolding adds_def
proof
  fix st
  assume f: "\<forall>st. \<exists>es. trace (f st) = trace st @ es \<and> list_all Q es"
    and g: "\<forall>st. \<exists>es. trace (g st) = trace st @ es \<and> list_all Q es"
  from f obtain es where 1: "trace (f st) = trace st @ es" "list_all Q es" by blast
  from g obtain es' where 2: "trace (g (f st)) = trace (f st) @ es'" "list_all Q es'" by blast
  from 1 2 have "trace (g (f st)) = trace st @ (es @ es') \<and> list_all Q (es @ es')" by simp
  then show "\<exists>es. trace (g (f st)) = trace st @ es \<and> list_all Q es" by blast
qed

lemma adds_seq: "(\<And>f. f \<in> set steps \<Longrightarrow> adds Q f) \<Longrightarrow> adds Q (seq steps)"
proof (induction steps)
  case Nil
  show ?case by (simp add: seq_def adds_def)
next
  case (Cons f steps)
  have "adds Q (\<lambda>st. seq steps (f st))"
    by (rule adds_comp) (simp_all add: Cons)
  moreover have "seq (f # steps) = (\<lambda>st. seq steps (f st))"
    by (simp add: seq_def fun_eq_iff)
  ultimately show ?case by simp
qed


lemma adds_catch_log: "(\<And>e. Q (LogError e)) \<Longrightarrow> adds Q catch_log"
  by (simp add: adds_def catch_log_def split: option.split)

lemma adds_if: "adds Q f \<Longrightarrow> adds Q (\<lambda>st. if b st then f st else st)"
  by (simp add: adds_def)

lemma adds_make_dirs: "(\<And>p. Q (MkdirSync p)) \<Longrightarrow> adds Q (make_dirs E dir)"
  unfolding make_dirs_def
  by (rule adds_if, rule adds_seq) (auto intro: adds_mkdir)

lemma adds_write_error_files:
  "(\<And>c. Q (WriteFileSync (projectDir a @ ''/middlewares/error.js'') c)) \<Longrightarrow>
   (\<And>c. Q (WriteFileSync (projectDir a @ ''/utils/errorHandler.js'') c)) \<Longrightarrow>
   adds Q (write_error_files E a)"
  unfolding write_error_files_def
  by (rule adds_if, rule adds_seq) (auto intro: adds_write)

lemma adds_write_error_files_off: "\<not> useErrorHandler a \<Longrightarrow> adds Q (write_error_files E a)"
  by (simp add: write_error_files_def adds_def)

lemma adds_write_env_file:
  "Q (WriteFileSync (projectDir a @ ''/.env'') envFileContent) \<Longrightarrow> adds Q (write_env_file E a)"
  unfolding write_env_file_def
  by (rule adds_if) (rule adds_write)

lemma adds_await_batches:
  assumes "\<And>ds dd. Promise_all (dependenciesPromise E a) = Inr ds \<Longrightarrow>
             Promise_all (devDependenciesPromise E) = Inr dd \<Longrightarrow>
             Q (WriteFileSync (projectDir a @ ''/package.json'')
                  (packageJsonContent (answer.name a) ds dd))"
    and "\<And>s. Q (Log s)"
  shows "adds Q (await_batches E a)"
proof (cases "Promise_all (dependenciesPromise E a)")
  case (Inl e)
  then show ?thesis by (simp add: await_batches_def adds_def await_def)
next
  case ds: (Inr ds)
  show ?thesis
  proof (cases "Promise_all (devDependenciesPromise E)")
    case (Inl e)
    then show ?thesis by (simp add: await_batches_def adds_def await_def ds)
  next
    case dd: (Inr dd)
    let ?w = "seq (fs_writeFileSync E (projectDir a @ ''/package.json'')
                      (packageJsonContent (answer.name a) ds dd)
                    # map console_log (summary (answer.name a)))"
    have "f \<in> set (fs_writeFileSync E (projectDir a @ ''/package.json'')
                      (packageJsonContent (answer.name a) ds dd)
                    # map console_log (summary (answer.name a))) \<Longrightarrow> adds Q f" for f
      using assms(1)[OF ds dd] assms(2) by (auto intro: adds_write adds_console_log)
    then have w: "adds Q ?w" by (rule adds_seq)
    have "await_batches E a = (\<lambda>st. if thrown st = None then ?w st else st)"
      by (simp add: await_batches_def await_def ds dd fun_eq_iff)
    with adds_if[OF w, of "\<lambda>st. thrown st = None"] show ?thesis by simp
  qed
qed

lemma adds_write_manifest:
  assumes "\<And>ds dd. Promise_all (dependenciesPromise E a) = Inr ds \<Longrightarrow>
             Promise_all (devDependenciesPromise E) = Inr dd \<Longrightarrow>
             Q (WriteFileSync (projectDir a @ ''/package.json'')
                  (packageJsonContent (answer.name a) ds dd))"
    and "\<And>s. Q (Log s)"
  shows "adds Q (write_manifest E a)"
proof (rule addsI)
  fix st
  from adds_await_batches[of E a Q, OF assms] obtain es where
    "trace (await_batches E a st) = trace st @ es" "list_all Q es"
    unfolding adds_def by blast
  then show "\<exists>es. trace (write_manifest E a st) = trace st @ es \<and> list_all Q es"
    by (auto simp: write_manifest_def)
qed

lemma Promise_all_rejects: "Inl e \<in> set ps \<Longrightarrow> \<exists>e'. Promise_all ps = Inl e'"
proof (induction ps)
  case Nil
  then show ?case by simp
next
  case (Cons p ps)
  show ?case
  proof (cases p)
    case (Inl x)
    then show ?thesis by simp
  next
    case (Inr v)
    with Cons obtain e' where "Promise_all ps = Inl e'" by auto
    with Inr show ?thesis by simp
  qed
qed

lemma write_manifest_rejected:
  assumes "n \<in> set (dependenciesNames a @ devDependenciesNames)"
    and "getLatestVersion E n = Inl e"
  shows "trace (write_manifest E a st) = trace st"
proof -
  from assms(1) have "getLatestVersion E n \<in> set (dependenciesPromise E a) \<union> set (devDependenciesPromise E)"
    unfolding dependenciesPromise_def devDependenciesPromise_def by auto
  with assms(2) have "Inl e \<in> set (dependenciesPromise E a) \<or> Inl e \<in> set (devDependenciesPromise E)"
    by simp
  then have "(\<exists>e'. Promise_all (dependenciesPromise E a) = Inl e')
      \<or> (\<exists>e'. Promise_all (devDependenciesPromise E) = Inl e')"
    by (auto dest: Promise_all_rejects)
  then show ?thesis
    by (cases "Promise_all (dependenciesPromise E a)")
       (auto simp: write_manifest_def await_batches_def await_def)
qed

text \<open>Every event of a run satisfies \<open>Q\<close> when every step adds only such events.\<close>

lemma adds_generate:
  assumes "adds Q (make_dirs E (projectDir a))"
    and "adds Q (write_error_files E a)"
    and "adds Q (write_env_file E a)"
    and "Q (WriteFileSync (projectDir a @ ''/app.js'') (baseFileContent a))"
    and "\<And>n. Q (GetLatestVersion n)"
    and "adds Q (write_manifest E a)"
  shows "adds Q (generate E a)"
proof -
  have "adds Q (fs_writeFileSync E (projectDir a @ ''/app.'' @ fileExtension) (baseFileContent a))"
    using assms(4) by (simp add: fileExtension_def adds_write)
  then show ?thesis
    unfolding generate_def
    by (intro adds_seq) (use assms in \<open>auto simp del: append.simps intro: adds_lookups\<close>)
qed

lemma main_events:
  assumes "\<And>a. prompt E = Inr a \<Longrightarrow> adds Q (generate E a)"
    and "\<And>s. Q (Log s)" and "\<And>e. Q (LogError e)"
  shows "list_all Q (trace (main E fs))"
proof -
  have g: "adds Q (await (prompt E) [] (generate E))"
    by (cases "prompt E") (simp_all add: adds_def await_def assms(1)[unfolded adds_def])
  have "adds Q (createApp_try E)"
    unfolding createApp_try_def
    by (rule adds_seq) (auto intro: adds_console_log assms g)
  moreover have c: "adds Q catch_log"
    by (rule adds_catch_log) (rule assms(3))
  ultimately have "adds Q (\<lambda>st. catch_log (createApp_try E st))"
    by (rule adds_comp)
  then have "adds Q (\<lambda>st. catch_log (catch_log (createApp_try E st)))"
    using c by (rule adds_comp)
  then obtain es where "trace (main E fs) = trace (fresh fs) @ es" "list_all Q es"
    unfolding main_def createApp_def adds_def by blast
  then show ?thesis by (simp add: fresh_def)
qed

subsection \<open>A failed lookup and the manifest\<close>

text \<open>
  Claim C3. In every run in which a version lookup of either batch is rejected, the
  generator never calls \<open>fs.writeFileSync\<close> on \<open>package.json\<close>: both batches are awaited
  before the manifest is rendered, and a rejected batch throws.
\<close>

theorem manifest_not_written_when_lookup_fails:
  assumes "prompt E = Inr a"
    and "n \<in> set (dependenciesNames a @ devDependenciesNames)"
    and "getLatestVersion E n = Inl e"
  shows "WriteFileSync (projectDir a @ ''/package.json'') c \<notin> set (trace (main E fs))"
proof -
  define Q where "Q ev = (\<forall>c. ev \<noteq> WriteFileSync (projectDir a @ ''/package.json'') c)" for ev
  have "adds Q (write_manifest E a)"
    using write_manifest_rejected[OF assms(2,3)] by (simp add: adds_def)
  then have "adds Q (generate E a)"
    by (intro adds_generate adds_make_dirs adds_write_error_files adds_write_env_file)
       (simp_all add: Q_def fileExtension_def)
  with assms(1) have "list_all Q (trace (main E fs))"
    by (intro main_events) (simp_all add: Q_def)
  then show ?thesis by (auto simp: list_all_iff Q_def)
qed

theorem manifest_not_written_when_lookup_fails_witness:
  "prompt (on_disk (Inr demo) broken_registry) = Inr demo
   \<and> ''cors'' \<in> set (dependenciesNames demo @ devDependenciesNames)
   \<and> getLatestVersion (on_disk (Inr demo) broken_registry) ''cors'' = Inl (Error ''404'')
   \<and> (\<forall>c. WriteFileSync (projectDir demo @ ''/package.json'') c
          \<notin> set (trace (main (on_disk (Inr demo) broken_registry) empty_disk)))"
proof -
  have 1: "prompt (on_disk (Inr demo) broken_registry) = Inr demo"
    by (simp add: on_disk_def)
  have 2: "''cors'' \<in> set (dependenciesNames demo @ devDependenciesNames)"
    by (simp add: dependenciesNames_def demo_def)
  have 3: "getLatestVersion (on_disk (Inr demo) broken_registry) ''cors'' = Inl (Error ''404'')"
    by (simp add: on_disk_def broken_registry_def)
  show ?thesis
    using manifest_not_written_when_lookup_fails
      [OF 1 2 3, where fs = empty_disk] 1 2 3
    by simp
qed

subsection \<open>Exceptions\<close>

lemma skipsD: "skips f \<Longrightarrow> thrown st = Some e \<Longrightarrow> f st = st"
  by (simp add: skips_def)

lemma sticky: "skips f \<Longrightarrow> thrown (f st) = None \<Longrightarrow> thrown st = None"
  by (cases "thrown st") (auto simp: skips_def)

lemma skips_console_log: "skips (console_log s)"
  by (simp add: skips_def console_log_def)

lemma skips_mkdir: "skips (fs_mkdirSync E p)"
  by (simp add: skips_def fs_mkdirSync_def)

lemma skips_write: "skips (fs_writeFileSync E p c)"
  by (simp add: skips_def fs_writeFileSync_def)

lemma skips_lookups: "skips (start_lookups ns)"
  by (simp add: skips_def start_lookups_def)

lemma skips_await: "skips (await p others k)"
  by (simp add: skips_def await_def)

lemma seq_Nil: "seq [] st = st"
  by (simp add: seq_def)

lemma seq_Cons: "seq (f # steps) st = seq steps (f st)"
  by (simp add: seq_def)

lemma skips_seq: "(\<And>f. f \<in> set steps \<Longrightarrow> skips f) \<Longrightarrow> skips (seq steps)"
proof (induction steps)
  case Nil
  show ?case by (simp add: skips_def seq_Nil)
next
  case (Cons f steps)
  then have "skips f" "skips (seq steps)" by simp_all
  then show ?case by (simp add: skips_def seq_Cons)
qed

lemma skips_make_dirs: "skips (make_dirs E dir)"
proof -
  have "skips (seq [fs_mkdirSync E dir,
             fs_mkdirSync E (dir @ ''/routes''),
             fs_mkdirSync E (dir @ ''/controllers''),
             fs_mkdirSync E (dir @ ''/utils''),
             fs_mkdirSync E (dir @ ''/middlewares''),
             fs_mkdirSync E (dir @ ''/lib''),
             fs_mkdirSync E (dir @ ''/tests'')])"
    by (rule skips_seq) (auto intro: skips_mkdir)
  then show ?thesis by (simp add: skips_def make_dirs_def)
qed

lemma skips_write_error_files: "skips (write_error_files E a)"
proof -
  have "skips (seq [fs_writeFileSync E (projectDir a @ ''/middlewares/error.js'') jsErrorMiddleware,
             fs_writeFileSync E (projectDir a @ ''/utils/errorHandler.js'') jsErrorHandler])"
    by (rule skips_seq) (auto intro: skips_write)
  then show ?thesis by (simp add: skips_def write_error_files_def)
qed

lemma skips_write_env_file: "skips (write_env_file E a)"
  using skips_write[of E "projectDir a @ ''/.env''" envFileContent]
  by (simp add: skips_def write_env_file_def)

lemma skips_await_batches: "skips (await_batches E a)"
  unfolding await_batches_def by (rule skips_await)

lemma skips_write_manifest: "skips (write_manifest E a)"
  using skips_await_batches[of E a] by (simp add: skips_def write_manifest_def)

lemma skips_generate: "skips (generate E a)"
  unfolding generate_def
  by (rule skips_seq)
     (auto simp del: append.simps
        intro: skips_make_dirs skips_write_error_files skips_write_env_file skips_write
          skips_lookups skips_write_manifest)

text \<open>A call that did not throw was made, and made in a state without exception.\<close>

lemma write_ok:
  assumes "thrown (fs_writeFileSync E p c st) = None"
  shows "thrown st = None \<and> trace (fs_writeFileSync E p c st) = trace st @ [WriteFileSync p c]"
  using assms by (cases "thrown st") (auto simp: fs_writeFileSync_def split: sum.splits)

lemma adds_mono: "adds Q f \<Longrightarrow> set (trace st) \<subseteq> set (trace (f st))"
  by (auto simp: adds_def) (metis Un_iff set_append)

lemma adds_True_make_dirs: "adds (\<lambda>_. True) (make_dirs E dir)"
  by (rule adds_make_dirs) simp

lemma createApp_try_prompt:
  "prompt E = Inr a \<Longrightarrow> createApp_try E (fresh fs) = generate E a (console_log banner (fresh fs))"
  by (simp add: createApp_try_def seq_def await_def console_log_def fresh_def)


lemma generate_split:
  "generate E a st =
     seq [write_error_files E a,
          write_env_file E a,
          fs_writeFileSync E (projectDir a @ ''/app.js'') (baseFileContent a),
          start_lookups (dependenciesNames a),
          start_lookups devDependenciesNames,
          write_manifest E a] (make_dirs E (projectDir a) st)"
  by (simp add: generate_def seq_def fileExtension_def)

lemma make_dirs_exists: "existsSync E (fsys st) dir \<Longrightarrow> make_dirs E dir st = st"
  by (simp add: make_dirs_def)

subsection \<open>An existing project root\<close>

text \<open>
  Claim C4. When the project root exists before the run, the directory block does nothing
  (it leaves the state as it is, so it raises no error), and the whole run calls
  \<open>fs.mkdirSync\<close> on no path at all: none of the six subdirectories is created, whether
  it exists or not.
\<close>

theorem existing_root_creates_no_directory:
  assumes "prompt E = Inr a" and "existsSync E fs (projectDir a)"
  shows "(\<forall>st. fsys st = fs \<longrightarrow> make_dirs E (projectDir a) st = st)
       \<and> (\<forall>p. MkdirSync p \<notin> set (trace (main E fs)))"
proof
  show "\<forall>st. fsys st = fs \<longrightarrow> make_dirs E (projectDir a) st = st"
    using assms(2) by (simp add: make_dirs_exists)
next
  define Q where "Q ev = (\<forall>p. ev \<noteq> MkdirSync p)" for ev
  let ?st = "console_log banner (fresh fs)"
  let ?rest = "seq [write_error_files E a,
          write_env_file E a,
          fs_writeFileSync E (projectDir a @ ''/app.js'') (baseFileContent a),
          start_lookups (dependenciesNames a),
          start_lookups devDependenciesNames,
          write_manifest E a]"
  have "fsys ?st = fs" by (simp add: console_log_def fresh_def)
  with assms(2) have g: "generate E a ?st = ?rest ?st"
    by (simp add: generate_split make_dirs_exists)
  have "adds Q ?rest"
    by (rule adds_seq)
       (auto simp: Q_def intro!: adds_write_error_files adds_write_env_file adds_write
          adds_lookups adds_write_manifest)
  moreover have c: "adds Q catch_log"
    by (rule adds_catch_log) (simp add: Q_def)
  ultimately have "adds Q (\<lambda>st. catch_log (?rest st))" by (rule adds_comp)
  then have "adds Q (\<lambda>st. catch_log (catch_log (?rest st)))" using c by (rule adds_comp)
  then obtain es where "trace (catch_log (catch_log (?rest ?st))) = trace ?st @ es" "list_all Q es"
    unfolding adds_def by blast
  moreover have "main E fs = catch_log (catch_log (?rest ?st))"
    by (simp add: main_def createApp_def createApp_try_prompt[OF assms(1)] g)
  ultimately have "list_all Q (trace (main E fs))"
    by (simp add: console_log_def fresh_def Q_def)
  then show "\<forall>p. MkdirSync p \<notin> set (trace (main E fs))"
    by (auto simp: list_all_iff Q_def)
qed

theorem existing_root_creates_no_directory_witness:
  "prompt (on_disk (Inr demo) demo_registry) = Inr demo
   \<and> existsSync (on_disk (Inr demo) demo_registry) stale_disk (projectDir demo)
   \<and> make_dirs (on_disk (Inr demo) demo_registry) (projectDir demo) (fresh stale_disk)
       = fresh stale_disk
   \<and> (\<forall>p. MkdirSync p \<notin> set (trace (main (on_disk (Inr demo) demo_registry) stale_disk)))"
proof -
  have 1: "prompt (on_disk (Inr demo) demo_registry) = Inr demo"
    by (simp add: on_disk_def)
  have 2: "existsSync (on_disk (Inr demo) demo_registry) stale_disk (projectDir demo)"
    by (simp add: on_disk_def demo_def stale_disk_def projectDir_def disk_existsSync_def
          normal_def)
  have 3: "fsys (fresh stale_disk) = stale_disk"
    by (simp add: fresh_def)
  show ?thesis
    using existing_root_creates_no_directory[OF 1 2] 1 2 3 by blast
qed

subsection \<open>Without the error handler\<close>

lemmas line_defs = express_import_def cors_import_def error_import_def dotenv_import_def
  json_use_def urlencoded_use_def cors_use_def error_use_def dotenv_config_def

lemma no_errorMiddleware:
  assumes "\<not> useErrorHandler a"
  shows "\<not> sublist ''errorM'' (baseFileContent a)"
  using assms
  by (cases "useCors a"; cases "useEnvFile a")
     (simp_all add: baseFileContent_def importLines_def middlewareLines_def line_defs
        sublist_Cons_right)

lemma sublist_trans: "sublist xs ys \<Longrightarrow> sublist ys zs \<Longrightarrow> sublist xs zs"
  by (rule sublist_order.order_trans)

lemma sublist_skip: "sublist xs zs \<Longrightarrow> sublist xs (ys @ zs)"
  by (metis sublist_def append_assoc)

lemma errorM_in_lines: "sublist ''errorM'' error_import" "sublist ''errorM'' error_use"
  by (simp_all add: line_defs sublist_Cons_right)

text \<open>
  Claim C5. With \<open>useErrorHandler = false\<close> the import list has no error-middleware
  import, the text of the entry-point file contains neither the import line nor the
  registration line, and no run with these answers calls \<open>fs.writeFileSync\<close> on
  \<open>middlewares/error.js\<close> or on \<open>utils/errorHandler.js\<close>.
\<close>

theorem no_error_handler_no_error_files:
  assumes "\<not> useErrorHandler a"
  shows "error_import \<notin> set (importLines a)
       \<and> \<not> sublist error_import (baseFileContent a)
       \<and> \<not> sublist error_use (baseFileContent a)
       \<and> (prompt E = Inr a \<longrightarrow>
            (\<forall>c. WriteFileSync (projectDir a @ ''/middlewares/error.js'') c \<notin> set (trace (main E fs))
               \<and> WriteFileSync (projectDir a @ ''/utils/errorHandler.js'') c \<notin> set (trace (main E fs))))"
proof (intro conjI impI)
  show "error_import \<notin> set (importLines a)"
    using assms by (simp add: importLines_def line_defs)
  show "\<not> sublist error_import (baseFileContent a)"
    using no_errorMiddleware[OF assms] errorM_in_lines(1) sublist_trans by blast
  show "\<not> sublist error_use (baseFileContent a)"
    using no_errorMiddleware[OF assms] errorM_in_lines(2) sublist_trans by blast
next
  assume p: "prompt E = Inr a"
  define Q where "Q ev = (\<forall>c. ev \<noteq> WriteFileSync (projectDir a @ ''/middlewares/error.js'') c
      \<and> ev \<noteq> WriteFileSync (projectDir a @ ''/utils/errorHandler.js'') c)" for ev
  have "adds Q (generate E a)"
    by (intro adds_generate adds_make_dirs adds_write_error_files_off adds_write_env_file
          adds_write_manifest assms)
       (simp_all add: Q_def)
  with p have "list_all Q (trace (main E fs))"
    by (intro main_events) (simp_all add: Q_def)
  then show "\<forall>c. WriteFileSync (projectDir a @ ''/middlewares/error.js'') c \<notin> set (trace (main E fs))
      \<and> WriteFileSync (projectDir a @ ''/utils/errorHandler.js'') c \<notin> set (trace (main E fs))"
    by (auto simp: list_all_iff Q_def)
qed

theorem no_error_handler_no_error_files_witness:
  "\<not> useErrorHandler plain
   \<and> error_import \<notin> set (importLines plain)
   \<and> \<not> sublist error_import (baseFileContent plain)
   \<and> \<not> sublist error_use (baseFileContent plain)
   \<and> prompt (on_disk (Inr plain) demo_registry) = Inr plain
   \<and> (\<forall>c. WriteFileSync (projectDir plain @ ''/middlewares/error.js'') c
              \<notin> set (trace (main (on_disk (Inr plain) demo_registry) empty_disk))
         \<and> WriteFileSync (projectDir plain @ ''/utils/errorHandler.js'') c
              \<notin> set (trace (main (on_disk (Inr plain) demo_registry) empty_disk)))"
proof -
  have 1: "\<not> useErrorHandler plain"
    by (simp add: plain_def)
  have 2: "prompt (on_disk (Inr plain) demo_registry) = Inr plain"
    by (simp add: on_disk_def)
  show ?thesis
    using no_error_handler_no_error_files
      [OF 1, of "on_disk (Inr plain) demo_registry" empty_disk] 1 2
    by blast
qed

subsection \<open>The order of the lines\<close>

text \<open>The file with CORS, as a text: its first two lines, and the three registrations.\<close>

lemma cors_file_text:
  assumes \<open>useCors a\<close>
  shows \<open>\<exists>rest. baseFileContent a
             = ''import express from "express";\<newline>import cors from "cors"\<newline>'' @ rest
           \<and> sublist ''\<newline>        app.use(express.json());\<newline>app.use(express.urlencoded({extended: true}));\<newline>app.use(cors({origin: '*', credentials: true}))\<newline>'' rest
           \<and> (useEnvFile a \<longrightarrow> sublist ''import dotenv from "dotenv";'' rest)\<close>
  using assms
  by (cases "useErrorHandler a"; cases "useEnvFile a")
     (simp_all add: baseFileContent_def importLines_def middlewareLines_def line_defs
        sublist_Cons_right)

text \<open>
  Claim C6. With \<open>useCors = true\<close> the import list has the line
  \<open>import express from "express";\<close> at index 0 and the line \<open>import cors from "cors"\<close> at
  index 1; the line \<open>import dotenv from "dotenv";\<close> is in the list when the environment file
  is asked for, and only at a later index. The middleware list is the JSON registration,
  the URL-encoded registration and the CORS registration, in this order. The entry-point
  file starts with the two import lines, and what follows them contains the three
  registrations in this order, on three lines, and the env-loader import if there is one.
\<close>

theorem cors_lines_in_order:
  assumes \<open>useCors a\<close>
  shows \<open>1 < length (importLines a)
       \<and> importLines a ! 0 = ''import express from "express";''
       \<and> importLines a ! 1 = ''import cors from "cors"''
       \<and> (useEnvFile a \<longrightarrow> ''import dotenv from "dotenv";'' \<in> set (importLines a))
       \<and> (\<forall>k < length (importLines a).
             importLines a ! k = ''import dotenv from "dotenv";'' \<longrightarrow> 1 < k)
       \<and> middlewareLines a
           = [''app.use(express.json());'',
              ''app.use(express.urlencoded({extended: true}));'',
              ''app.use(cors({origin: '*', credentials: true}))'']
       \<and> (\<exists>rest. baseFileContent a
             = ''import express from "express";\<newline>import cors from "cors"\<newline>'' @ rest
           \<and> sublist ''\<newline>        app.use(express.json());\<newline>app.use(express.urlencoded({extended: true}));\<newline>app.use(cors({origin: '*', credentials: true}))\<newline>'' rest
           \<and> (useEnvFile a \<longrightarrow> sublist ''import dotenv from "dotenv";'' rest))\<close>
proof (intro conjI)
  show \<open>1 < length (importLines a)\<close>
    \<open>importLines a ! 0 = ''import express from "express";''\<close>
    \<open>importLines a ! 1 = ''import cors from "cors"''\<close>
    using assms by (simp_all add: importLines_def line_defs)
  show \<open>useEnvFile a \<longrightarrow> ''import dotenv from "dotenv";'' \<in> set (importLines a)\<close>
    by (simp add: importLines_def line_defs)
  show \<open>\<forall>k < length (importLines a).
             importLines a ! k = ''import dotenv from "dotenv";'' \<longrightarrow> 1 < k\<close>
  proof (intro allI impI)
    fix k assume \<open>k < length (importLines a)\<close>
      and k: \<open>importLines a ! k = ''import dotenv from "dotenv";''\<close>
    have \<open>importLines a ! 0 \<noteq> ''import dotenv from "dotenv";''\<close>
      \<open>importLines a ! 1 \<noteq> ''import dotenv from "dotenv";''\<close>
      using assms by (simp_all add: importLines_def line_defs)
    with k have "k \<noteq> 0" "k \<noteq> 1" by metis+
    then show "1 < k" by simp
  qed
  show \<open>middlewareLines a
           = [''app.use(express.json());'',
              ''app.use(express.urlencoded({extended: true}));'',
              ''app.use(cors({origin: '*', credentials: true}))'']\<close>
    using assms by (simp add: middlewareLines_def line_defs)
  show \<open>\<exists>rest. baseFileContent a
             = ''import express from "express";\<newline>import cors from "cors"\<newline>'' @ rest
           \<and> sublist ''\<newline>        app.use(express.json());\<newline>app.use(express.urlencoded({extended: true}));\<newline>app.use(cors({origin: '*', credentials: true}))\<newline>'' rest
           \<and> (useEnvFile a \<longrightarrow> sublist ''import dotenv from "dotenv";'' rest)\<close>
    by (rule cors_file_text[OF assms])
qed

theorem cors_lines_in_order_witness:
  \<open>useCors demo \<and> useEnvFile demo
   \<and> 1 < length (importLines demo)
   \<and> importLines demo ! 0 = ''import express from "express";''
   \<and> importLines demo ! 1 = ''import cors from "cors"''
   \<and> importLines demo ! 3 = ''import dotenv from "dotenv";''
   \<and> middlewareLines demo
       = [''app.use(express.json());'',
          ''app.use(express.urlencoded({extended: true}));'',
          ''app.use(cors({origin: '*', credentials: true}))'']
   \<and> (\<exists>rest. baseFileContent demo
         = ''import express from "express";\<newline>import cors from "cors"\<newline>'' @ rest
       \<and> sublist ''\<newline>        app.use(express.json());\<newline>app.use(express.urlencoded({extended: true}));\<newline>app.use(cors({origin: '*', credentials: true}))\<newline>'' rest
       \<and> sublist ''import dotenv from "dotenv";'' rest)\<close>
proof -
  have 1: "useCors demo" "useEnvFile demo" by (simp_all add: demo_def)
  have 2: \<open>importLines demo ! 3 = ''import dotenv from "dotenv";''\<close>
    by (simp add: importLines_def demo_def line_defs)
  from cors_lines_in_order[OF 1(1)] 1 2 show ?thesis by blast
qed

subsection \<open>The manifest is a function of its inputs\<close>

lemma manifest_content:
  assumes "prompt E = Inr a"
    and "WriteFileSync (projectDir a @ ''/package.json'') c \<in> set (trace (main E fs))"
  shows "\<exists>ds dd. Promise_all (dependenciesPromise E a) = Inr ds
           \<and> Promise_all (devDependenciesPromise E) = Inr dd
           \<and> c = packageJsonContent (answer.name a) ds dd"
proof -
  define Q where "Q ev = (\<forall>c. ev = WriteFileSync (projectDir a @ ''/package.json'') c \<longrightarrow>
      (\<exists>ds dd. Promise_all (dependenciesPromise E a) = Inr ds
           \<and> Promise_all (devDependenciesPromise E) = Inr dd
           \<and> c = packageJsonContent (answer.name a) ds dd))" for ev
  have "adds Q (generate E a)"
    by (intro adds_generate adds_make_dirs adds_write_error_files adds_write_env_file
          adds_write_manifest)
       (simp_all add: Q_def)
  with assms(1) have "list_all Q (trace (main E fs))"
    by (intro main_events) (simp_all add: Q_def)
  with assms(2) show ?thesis by (auto simp: list_all_iff Q_def)
qed

text \<open>
  Claim C8. Two runs, on any two file systems, that are given the same answers and whose
  lookups settle alike write the same manifest text, if they write one: the text is
  \<open>packageJsonContent\<close> of the project name and the resolved descriptors, and of nothing else.
\<close>

theorem manifest_deterministic:
  assumes "prompt E1 = Inr a" and "prompt E2 = Inr a"
    and "dependenciesPromise E1 a = dependenciesPromise E2 a"
    and "devDependenciesPromise E1 = devDependenciesPromise E2"
    and "WriteFileSync (projectDir a @ ''/package.json'') c1 \<in> set (trace (main E1 fs1))"
    and "WriteFileSync (projectDir a @ ''/package.json'') c2 \<in> set (trace (main E2 fs2))"
  shows "c1 = c2
       \<and> (\<exists>ds dd. Promise_all (dependenciesPromise E1 a) = Inr ds
             \<and> Promise_all (devDependenciesPromise E1) = Inr dd
             \<and> c1 = packageJsonContent (answer.name a) ds dd)"
  using manifest_content[OF assms(1,5)] manifest_content[OF assms(2,6)] assms(3,4)
  by auto

lemma demo_run_empty:
  "WriteFileSync ''./demo/package.json'' (packageJsonContent ''demo'' demo_dependencies demo_devDependencies)
     \<in> set (trace (main (on_disk (Inr demo) demo_registry) empty_disk))"
  by code_simp

lemma demo_run_busy:
  "WriteFileSync ''./demo/package.json'' (packageJsonContent ''demo'' demo_dependencies demo_devDependencies)
     \<in> set (trace (main (on_disk (Inr demo) other_registry) busy_disk))"
  by code_simp

text \<open>A registry that agrees with the example's on the four packages looked up.\<close>

lemma other_registry_same_batches:
  "dependenciesPromise (on_disk (Inr demo) demo_registry) demo
     = dependenciesPromise (on_disk (Inr demo) other_registry) demo"
  "devDependenciesPromise (on_disk (Inr demo) demo_registry)
     = devDependenciesPromise (on_disk (Inr demo) other_registry)"
  by (simp_all add: dependenciesPromise_def devDependenciesPromise_def dependenciesNames_def
        devDependenciesNames_def on_disk_def demo_def other_registry_def demo_registry_def)

theorem manifest_deterministic_witness:
  "prompt (on_disk (Inr demo) demo_registry) = Inr demo
   \<and> prompt (on_disk (Inr demo) other_registry) = Inr demo
   \<and> dependenciesPromise (on_disk (Inr demo) demo_registry) demo
       = dependenciesPromise (on_disk (Inr demo) other_registry) demo
   \<and> devDependenciesPromise (on_disk (Inr demo) demo_registry)
       = devDependenciesPromise (on_disk (Inr demo) other_registry)
   \<and> WriteFileSync (projectDir demo @ ''/package.json'')
        (packageJsonContent ''demo'' demo_dependencies demo_devDependencies)
        \<in> set (trace (main (on_disk (Inr demo) demo_registry) empty_disk))
   \<and> WriteFileSync (projectDir demo @ ''/package.json'')
        (packageJsonContent ''demo'' demo_dependencies demo_devDependencies)
        \<in> set (trace (main (on_disk (Inr demo) other_registry) busy_disk))
   \<and> (\<exists>ds dd. Promise_all (dependenciesPromise (on_disk (Inr demo) demo_registry) demo) = Inr ds
         \<and> Promise_all (devDependenciesPromise (on_disk (Inr demo) demo_registry)) = Inr dd
         \<and> packageJsonContent ''demo'' demo_dependencies demo_devDependencies
             = packageJsonContent (answer.name demo) ds dd)"
proof -
  have p: "prompt (on_disk (Inr demo) demo_registry) = Inr demo"
    "prompt (on_disk (Inr demo) other_registry) = Inr demo"
    by (simp_all add: on_disk_def)
  have d: "projectDir demo @ ''/package.json'' = ''./demo/package.json''"
    by (simp add: projectDir_def demo_def)
  note w = demo_run_empty[folded d] demo_run_busy[folded d]
  show ?thesis
    using manifest_deterministic[OF p other_registry_same_batches w]
      p other_registry_same_batches w
    by blast
qed

subsection \<open>The environment file\<close>

lemma main_prompt:
  "prompt E = Inr a \<Longrightarrow>
   main E fs = catch_log (catch_log (generate E a (console_log banner (fresh fs))))"
  by (simp add: main_def createApp_def createApp_try_prompt)

lemma adds_any_catch_log: "adds (\<lambda>_. True) catch_log"
  by (rule adds_catch_log) simp

lemma set_trace_catch_log: "set (trace st) \<subseteq> set (trace (catch_log st))"
  by (rule adds_mono) (rule adds_any_catch_log)

lemma set_trace_write: "set (trace st) \<subseteq> set (trace (fs_writeFileSync E p c st))"
  by (rule adds_mono[of "\<lambda>_. True"]) (simp add: adds_write)

lemma set_trace_lookups: "set (trace st) \<subseteq> set (trace (start_lookups ns st))"
  by (rule adds_mono[of "\<lambda>_. True"]) (simp add: adds_lookups)

lemma set_trace_write_manifest: "set (trace st) \<subseteq> set (trace (write_manifest E a st))"
  by (rule adds_mono[of "\<lambda>_. True"]) (simp add: adds_write_manifest)

lemma write_made:
  "thrown st = None \<Longrightarrow> trace (fs_writeFileSync E p c st) = trace st @ [WriteFileSync p c]"
  by (simp add: fs_writeFileSync_def split: sum.split)


text \<open>The steps of \<open>generate\<close> one after the other.\<close>

lemma generate_steps:
  "generate E a st =
     write_manifest E a
       (start_lookups devDependenciesNames
         (start_lookups (dependenciesNames a)
           (fs_writeFileSync E (projectDir a @ ''/app.js'') (baseFileContent a)
             (write_env_file E a
               (write_error_files E a
                 (make_dirs E (projectDir a) st))))))"
  by (simp add: generate_def seq_def fileExtension_def)

lemma thrown_banner: "thrown (console_log banner (fresh fs)) = None"
  "trace (console_log banner (fresh fs)) = [Log banner]"
  "fsys (console_log banner (fresh fs)) = fs"
  "unhandled (console_log banner (fresh fs)) = []"
  by (simp_all add: console_log_def fresh_def)

lemma env_file_written_before_entry_point:
  assumes p: "prompt E = Inr a" and v: "useEnvFile a"
    and w: "WriteFileSync (projectDir a @ ''/app.js'') c \<in> set (trace (main E fs))"
  shows "WriteFileSync (projectDir a @ ''/.env'') envFileContent \<in> set (trace (main E fs))"
proof -
  define st1 where "st1 = console_log banner (fresh fs)"
  define st3 where "st3 = write_error_files E a (make_dirs E (projectDir a) st1)"
  define st4 where "st4 = write_env_file E a st3"
  define tail where "tail st = write_manifest E a
       (start_lookups devDependenciesNames
         (start_lookups (dependenciesNames a)
           (fs_writeFileSync E (projectDir a @ ''/app.js'') (baseFileContent a) st)))" for st
  have m: "main E fs = catch_log (catch_log (tail st4))"
    by (simp add: main_prompt[OF p] generate_steps tail_def st4_def st3_def st1_def)
  have mono: "set (trace st) \<subseteq> set (trace (catch_log (catch_log (tail st))))" for st
    unfolding tail_def
    using set_trace_catch_log set_trace_write set_trace_lookups set_trace_write_manifest
    by (meson subset_trans)
  show ?thesis
  proof (cases "thrown st3")
    case None
    then have "trace st4 = trace st3 @ [WriteFileSync (projectDir a @ ''/.env'') envFileContent]"
      using v by (simp add: st4_def write_env_file_def write_made)
    then have "WriteFileSync (projectDir a @ ''/.env'') envFileContent \<in> set (trace st4)"
      by simp
    with mono[of st4] show ?thesis by (auto simp: m)
  next
    case (Some e)
    then have 4: "st4 = st3"
      by (simp add: st4_def skipsD[OF skips_write_env_file])
    have "tail st3 = st3"
      unfolding tail_def
      by (simp add: Some skipsD[OF skips_write] skipsD[OF skips_lookups]
            skipsD[OF skips_write_manifest])
    then have "trace (main E fs) = trace st3 @ [LogError e]"
      using Some by (simp add: m 4 catch_log_def)
    moreover
    define Q where "Q ev = (\<forall>c. ev \<noteq> WriteFileSync (projectDir a @ ''/app.js'') c)" for ev
    have "adds Q (\<lambda>st. write_error_files E a (make_dirs E (projectDir a) st))"
      by (rule adds_comp)
         (auto simp: Q_def intro!: adds_make_dirs adds_write_error_files)
    then obtain es where "trace st3 = trace st1 @ es" "list_all Q es"
      unfolding adds_def st3_def by blast
    ultimately have "list_all Q (trace (main E fs))"
      by (simp add: st1_def thrown_banner Q_def)
    with w show ?thesis by (auto simp: list_all_iff Q_def)
  qed
qed

lemma env_reference_not_written:
  assumes "prompt E = Inr a"
  shows "WriteFileSync (projectDir a @ ''/env'') c \<notin> set (trace (main E fs))"
proof -
  define Q where "Q ev = (\<forall>c. ev \<noteq> WriteFileSync (projectDir a @ ''/env'') c)" for ev
  have "adds Q (generate E a)"
    by (intro adds_generate adds_make_dirs adds_write_error_files adds_write_env_file
          adds_write_manifest)
       (simp_all add: Q_def)
  with assms have "list_all Q (trace (main E fs))"
    by (intro main_events) (simp_all add: Q_def)
  then show ?thesis by (auto simp: list_all_iff Q_def)
qed

lemma no_dot_env_reference:
  "\<not> sublist ''/.env'' (baseFileContent a)"
  by (cases "useCors a"; cases "useEnvFile a"; cases "useErrorHandler a")
     (simp_all add: baseFileContent_def importLines_def middlewareLines_def line_defs
        sublist_Cons_right)

lemma config_path_env:
  assumes "useEnvFile a"
  shows "config_path (baseFileContent a) = Some ''./env''"
  using assms
  by (cases "useCors a"; cases "useErrorHandler a")
     (simp_all add: config_path_def baseFileContent_def importLines_def middlewareLines_def
        line_defs)

lemma config_call_in_file:
  assumes "useEnvFile a"
  shows "sublist ''dotenv.config({path: './env'});'' (baseFileContent a)"
  unfolding baseFileContent_def dotenv_config_def using assms
  by (simp only: if_True) ((rule sublist_append_rightI | rule sublist_skip)+)

text \<open>
  Claim C10. With \<open>useEnvFile = true\<close> the entry-point file contains the call
  \<open>dotenv.config({path: './env'});\<close>, the path its first \<open>dotenv.config\<close> call names is
  \<open>./env\<close>, and it names no path that ends in \<open>/.env\<close>. In the project root \<open>./env\<close> is the
  file \<open>env\<close>, which is not the file \<open>.env\<close> and which no run writes; and every run that
  gets to write the entry-point file has written the text \<open>PORT=5000\<close> before, to the file
  \<open>.env\<close> of the project root.
\<close>

theorem env_file_path_mismatch:
  assumes "useEnvFile a"
  shows "sublist ''dotenv.config({path: './env'});'' (baseFileContent a)
       \<and> config_path (baseFileContent a) = Some ''./env''
       \<and> \<not> sublist ''/.env'' (baseFileContent a)
       \<and> under (projectDir a) ''./env'' = projectDir a @ ''/env''
       \<and> under (projectDir a) ''./env'' \<noteq> projectDir a @ ''/.env''
       \<and> (prompt E = Inr a \<longrightarrow>
            (\<forall>c. WriteFileSync (under (projectDir a) ''./env'') c \<notin> set (trace (main E fs)))
          \<and> (\<forall>c. WriteFileSync (projectDir a @ ''/app.js'') c \<in> set (trace (main E fs)) \<longrightarrow>
                 WriteFileSync (projectDir a @ ''/.env'') ''PORT=5000''
                   \<in> set (trace (main E fs))))"
proof (intro conjI impI allI)
  show "sublist ''dotenv.config({path: './env'});'' (baseFileContent a)"
    by (rule config_call_in_file[OF assms])
  show "config_path (baseFileContent a) = Some ''./env''"
    by (rule config_path_env[OF assms])
  show "\<not> sublist ''/.env'' (baseFileContent a)"
    by (rule no_dot_env_reference)
  show u: "under (projectDir a) ''./env'' = projectDir a @ ''/env''"
    by (simp add: under_def)
  show "under (projectDir a) ''./env'' \<noteq> projectDir a @ ''/.env''"
    by (simp add: under_def)
  fix c assume "prompt E = Inr a"
  then show "WriteFileSync (under (projectDir a) ''./env'') c \<notin> set (trace (main E fs))"
    unfolding u by (rule env_reference_not_written)
next
  fix c assume "prompt E = Inr a"
    and "WriteFileSync (projectDir a @ ''/app.js'') c \<in> set (trace (main E fs))"
  then have "WriteFileSync (projectDir a @ ''/.env'') envFileContent \<in> set (trace (main E fs))"
    using assms by (intro env_file_written_before_entry_point)
  then show "WriteFileSync (projectDir a @ ''/.env'') ''PORT=5000'' \<in> set (trace (main E fs))"
    by (simp add: envFileContent_def)
qed

lemma demo_facts:
  "prompt (on_disk (Inr demo) demo_registry) = Inr demo"
  "useEnvFile demo"
  "projectDir demo = ''./demo''"
  by (simp_all add: on_disk_def demo_def projectDir_def)

lemma demo_run_entry_point:
  "WriteFileSync ''./demo/app.js'' (baseFileContent demo)
     \<in> set (trace (main (on_disk (Inr demo) demo_registry) empty_disk))"
  by code_simp

lemma demo_run_files:
  "files (fsys (main (on_disk (Inr demo) demo_registry) empty_disk)) ''./demo/.env''
     = Some ''PORT=5000''"
  "files (fsys (main (on_disk (Inr demo) demo_registry) empty_disk)) ''./demo/env'' = None"
  by code_simp+

theorem env_file_path_mismatch_witness:
  "useEnvFile demo
   \<and> prompt (on_disk (Inr demo) demo_registry) = Inr demo
   \<and> WriteFileSync (projectDir demo @ ''/app.js'') (baseFileContent demo)
        \<in> set (trace (main (on_disk (Inr demo) demo_registry) empty_disk))
   \<and> sublist ''dotenv.config({path: './env'});'' (baseFileContent demo)
   \<and> config_path (baseFileContent demo) = Some ''./env''
   \<and> \<not> sublist ''/.env'' (baseFileContent demo)
   \<and> under (projectDir demo) ''./env'' = projectDir demo @ ''/env''
   \<and> under (projectDir demo) ''./env'' \<noteq> projectDir demo @ ''/.env''
   \<and> (\<forall>c. WriteFileSync (under (projectDir demo) ''./env'') c
          \<notin> set (trace (main (on_disk (Inr demo) demo_registry) empty_disk)))
   \<and> WriteFileSync (projectDir demo @ ''/.env'') ''PORT=5000''
        \<in> set (trace (main (on_disk (Inr demo) demo_registry) empty_disk))
   \<and> files (fsys (main (on_disk (Inr demo) demo_registry) empty_disk)) ''./demo/.env''
       = Some ''PORT=5000''
   \<and> files (fsys (main (on_disk (Inr demo) demo_registry) empty_disk)) ''./demo/env'' = None"
proof -
  have w: "WriteFileSync (projectDir demo @ ''/app.js'') (baseFileContent demo)
        \<in> set (trace (main (on_disk (Inr demo) demo_registry) empty_disk))"
    using demo_run_entry_point by (simp add: demo_facts)
  show ?thesis
    using env_file_path_mismatch
      [OF demo_facts(2), of "on_disk (Inr demo) demo_registry" empty_disk]
      demo_facts(1,2) w demo_run_files
    by blast
qed

subsection \<open>Runs that end well, runs that fail\<close>


lemma logged_errors_empty: "logged_errors st = [] \<longleftrightarrow> (\<forall>e. LogError e \<notin> set (trace st))"
proof -
  have "concat (map (\<lambda>ev. case ev of LogError err \<Rightarrow> [err] | _ \<Rightarrow> []) es) = []
      \<longleftrightarrow> (\<forall>e. LogError e \<notin> set es)" for es
  proof (induction es)
    case Nil
    show ?case by simp
  next
    case (Cons ev es)
    then show ?case by (cases ev) auto
  qed
  then show ?thesis by (simp add: logged_errors_def)
qed


lemma catch_log_idle: "thrown st = None \<Longrightarrow> catch_log st = st"
  by (simp add: catch_log_def)

lemma catch_log_prints:
  "thrown st = Some e \<Longrightarrow> trace (catch_log st) = trace st @ [LogError e]"
  by (simp add: catch_log_def)

lemma main_trace_failure:
  assumes "thrown (createApp_try E (fresh fs)) = Some e"
  shows "trace (main E fs) = trace (createApp_try E (fresh fs)) @ [LogError e]"
  using assms by (simp add: main_def createApp_def catch_log_def)

lemma main_trace_success:
  assumes "thrown (createApp_try E (fresh fs)) = None"
  shows "main E fs = createApp_try E (fresh fs)"
  using assms by (simp add: main_def createApp_def catch_log_def)


lemma quiet_run:
  assumes "logged_errors (main E fs) = []"
  shows "thrown (createApp_try E (fresh fs)) = None"
proof (cases "thrown (createApp_try E (fresh fs))")
  case None
  then show ?thesis .
next
  case (Some e)
  from main_trace_failure[OF this] have "LogError e \<in> set (trace (main E fs))" by simp
  with assms show ?thesis by (simp add: logged_errors_empty)
qed

text \<open>What a run that ends without exception has done.\<close>

lemma generate_done:
  assumes fin: "thrown (generate E a st) = None"
  shows "thrown st = None"
    and "useEnvFile a \<Longrightarrow>
           WriteFileSync (projectDir a @ ''/.env'') envFileContent \<in> set (trace (generate E a st))"
    and "WriteFileSync (projectDir a @ ''/app.js'') (baseFileContent a)
           \<in> set (trace (generate E a st))"
    and "rejections (devDependenciesPromise E) = [] \<Longrightarrow>
         \<exists>ds dd. Promise_all (dependenciesPromise E a) = Inr ds
           \<and> Promise_all (devDependenciesPromise E) = Inr dd
           \<and> WriteFileSync (projectDir a @ ''/package.json'')
                (packageJsonContent (answer.name a) ds dd) \<in> set (trace (generate E a st))"
proof -
  define st2 where "st2 = make_dirs E (projectDir a) st"
  define st3 where "st3 = write_error_files E a st2"
  define st4 where "st4 = write_env_file E a st3"
  define st5 where "st5 = fs_writeFileSync E (projectDir a @ ''/app.js'') (baseFileContent a) st4"
  define st6 where "st6 = start_lookups (dependenciesNames a) st5"
  define st7 where "st7 = start_lookups devDependenciesNames st6"
  have g: "generate E a st = write_manifest E a st7"
    by (simp add: generate_steps st7_def st6_def st5_def st4_def st3_def st2_def)
  from fin have 7: "thrown st7 = None"
    unfolding g by (rule sticky[OF skips_write_manifest])
  then have 6: "thrown st6 = None"
    unfolding st7_def by (rule sticky[OF skips_lookups])
  then have 5: "thrown st5 = None"
    unfolding st6_def by (rule sticky[OF skips_lookups])
  then have 4: "thrown st4 = None"
    unfolding st5_def by (rule sticky[OF skips_write])
  then have 3: "thrown st3 = None"
    unfolding st4_def by (rule sticky[OF skips_write_env_file])
  then have 2: "thrown st2 = None"
    unfolding st3_def by (rule sticky[OF skips_write_error_files])
  then show "thrown st = None"
    unfolding st2_def by (rule sticky[OF skips_make_dirs])
  have up: "set (trace st4) \<subseteq> set (trace st5)" "set (trace st5) \<subseteq> set (trace st7)"
    "set (trace st7) \<subseteq> set (trace (generate E a st))"
    unfolding g st7_def st6_def st5_def
    using set_trace_write set_trace_lookups set_trace_write_manifest
    by (meson subset_trans)+
  have "trace st5 = trace st4 @ [WriteFileSync (projectDir a @ ''/app.js'') (baseFileContent a)]"
    unfolding st5_def by (rule write_made[OF 4])
  with up show "WriteFileSync (projectDir a @ ''/app.js'') (baseFileContent a)
           \<in> set (trace (generate E a st))"
    by auto
  show "WriteFileSync (projectDir a @ ''/.env'') envFileContent \<in> set (trace (generate E a st))"
    if "useEnvFile a"
  proof -
    have "trace st4 = trace st3 @ [WriteFileSync (projectDir a @ ''/.env'') envFileContent]"
      using that by (simp add: st4_def write_env_file_def write_made[OF 3])
    with up show ?thesis by auto
  qed
  show "\<exists>ds dd. Promise_all (dependenciesPromise E a) = Inr ds
           \<and> Promise_all (devDependenciesPromise E) = Inr dd
           \<and> WriteFileSync (projectDir a @ ''/package.json'')
                (packageJsonContent (answer.name a) ds dd) \<in> set (trace (generate E a st))"
    if quiet: "rejections (devDependenciesPromise E) = []"
  proof (cases "Promise_all (dependenciesPromise E a)")
    case (Inl e)
    with fin 7 quiet show ?thesis
      by (simp add: g write_manifest_def await_batches_def await_def)
  next
    case ds: (Inr ds)
    show ?thesis
    proof (cases "Promise_all (devDependenciesPromise E)")
      case (Inl e)
      with fin 7 ds quiet show ?thesis
        by (simp add: g write_manifest_def await_batches_def await_def)
    next
      case dd: (Inr dd)
      let ?w = "fs_writeFileSync E (projectDir a @ ''/package.json'')
                  (packageJsonContent (answer.name a) ds dd) st7"
      have e: "generate E a st = seq (map console_log (summary (answer.name a))) ?w"
        by (simp add: g write_manifest_def await_batches_def await_def ds dd 7 seq_Cons quiet)
      have "adds (\<lambda>_. True) (seq (map console_log (summary (answer.name a))))"
        by (rule adds_seq) (auto intro: adds_console_log)
      from adds_mono[OF this, of ?w]
      have "set (trace ?w) \<subseteq> set (trace (generate E a st))"
        unfolding e .
      moreover have "trace ?w = trace st7 @ [WriteFileSync (projectDir a @ ''/package.json'')
                  (packageJsonContent (answer.name a) ds dd)]"
        by (rule write_made[OF 7])
      ultimately show ?thesis using ds dd by auto
    qed
  qed
qed

subsection \<open>The example of the specification\<close>

lemma demo_texts:
  \<open>map entry demo_dependencies
     = [''"express": "4.18.0"'', ''"cors": "2.8.5"'', ''"dotenv": "16.0.0"'']\<close>
  \<open>map entry demo_devDependencies = [''"nodemon": "3.0.0"'']\<close>
  \<open>packageJsonContent ''demo'' demo_dependencies demo_devDependencies = demo_manifest\<close>
  \<open>importLines demo
     = [''import express from "express";'',
        ''import cors from "cors"'',
        ''import { errorMiddleware } from "./middlewares/error.js"'',
        ''import dotenv from "dotenv";'']\<close>
  by (simp_all add: entry_def demo_dependencies_def demo_devDependencies_def
        packageJsonContent_def demo_manifest_def npmScriptjs_def importLines_def demo_def
        line_defs)

lemma demo_import_block:
  \<open>prefix ''import express from "express";\<newline>import cors from "cors"\<newline>import { errorMiddleware } from "./middlewares/error.js"\<newline>import dotenv from "dotenv";\<newline>''
     (baseFileContent demo)\<close>
  by (simp add: baseFileContent_def demo_texts(4))

lemma demo_manifest_objects:
  \<open>suffix (''        "dependencies": {\<newline>'' @
            ''            "express": "4.18.0","cors": "2.8.5","dotenv": "16.0.0"\<newline>'' @
            ''        },\<newline>'' @
            ''        "devDependencies": {\<newline>'' @
            ''            "nodemon": "3.0.0"\<newline>'' @
            ''        },\<newline>'' @
            ''    }'')
     demo_manifest\<close>
  unfolding demo_manifest_def
  by (rule suffix_order.refl | rule suffix_appendI)+

lemma Promise_all_resolved: "Promise_all (map Inr vs) = Inr vs"
  by (induction vs) simp_all

lemma rejections_resolved: "rejections (map Inr vs) = []"
  by (induction vs) simp_all

text \<open>
  Claim C7. For the answers \<open>demo\<close>, lookups that resolve to express 4.18.0, cors 2.8.5,
  dotenv 16.0.0 and nodemon 3.0.0, and a run that prints no error: the entries of the
  dependencies object are those three and the entry of the devDependencies object is
  nodemon 3.0.0, as texts; the import lines are the framework, cors, error-middleware and
  env-loader imports in this order, and these four lines open the entry-point file; the
  manifest written ends with the two objects, holding those entries and nothing else; and
  a file \<open>./demo/.env\<close> with the text \<open>PORT=5000\<close> is written.
\<close>

theorem demo_example:
  assumes \<open>prompt E = Inr demo\<close>
    and \<open>dependenciesPromise E demo = map Inr demo_dependencies\<close>
    and \<open>devDependenciesPromise E = map Inr demo_devDependencies\<close>
    and \<open>logged_errors (main E fs) = []\<close>
  shows \<open>map entry demo_dependencies
           = [''"express": "4.18.0"'', ''"cors": "2.8.5"'', ''"dotenv": "16.0.0"'']
       \<and> map entry demo_devDependencies = [''"nodemon": "3.0.0"'']
       \<and> importLines demo
           = [''import express from "express";'',
              ''import cors from "cors"'',
              ''import { errorMiddleware } from "./middlewares/error.js"'',
              ''import dotenv from "dotenv";'']
       \<and> prefix ''import express from "express";\<newline>import cors from "cors"\<newline>import { errorMiddleware } from "./middlewares/error.js"\<newline>import dotenv from "dotenv";\<newline>''
            (baseFileContent demo)
       \<and> WriteFileSync ''./demo/app.js'' (baseFileContent demo) \<in> set (trace (main E fs))
       \<and> WriteFileSync ''./demo/package.json'' demo_manifest \<in> set (trace (main E fs))
       \<and> suffix (''        "dependencies": {\<newline>'' @
                 ''            "express": "4.18.0","cors": "2.8.5","dotenv": "16.0.0"\<newline>'' @
                 ''        },\<newline>'' @
                 ''        "devDependencies": {\<newline>'' @
                 ''            "nodemon": "3.0.0"\<newline>'' @
                 ''        },\<newline>'' @
                 ''    }'')
            demo_manifest
       \<and> WriteFileSync ''./demo/.env'' ''PORT=5000'' \<in> set (trace (main E fs))\<close>
proof -
  let ?st = "console_log banner (fresh fs)"
  have t: "thrown (createApp_try E (fresh fs)) = None"
    using assms(4) by (rule quiet_run)
  then have m: "main E fs = generate E demo ?st"
    by (simp add: main_trace_success createApp_try_prompt[OF assms(1)])
  from t have fin: "thrown (generate E demo ?st) = None"
    by (simp add: createApp_try_prompt[OF assms(1)])
  have d: "projectDir demo = ''./demo''" "useEnvFile demo" "answer.name demo = ''demo''"
    by (simp_all add: projectDir_def demo_def)
  from generate_done(2)[OF fin d(2)]
  have "WriteFileSync ''./demo/.env'' ''PORT=5000'' \<in> set (trace (main E fs))"
    by (simp add: m d envFileContent_def)
  moreover from generate_done(3)[OF fin]
  have "WriteFileSync ''./demo/app.js'' (baseFileContent demo) \<in> set (trace (main E fs))"
    by (simp add: m d)
  moreover have "rejections (devDependenciesPromise E) = []"
    by (simp add: assms(3) rejections_resolved)
  from generate_done(4)[OF fin this]
  have "WriteFileSync ''./demo/package.json'' demo_manifest \<in> set (trace (main E fs))"
    by (simp add: m d assms(2,3) Promise_all_resolved demo_texts(3))
  ultimately show ?thesis
    using demo_texts(1,2,4) demo_import_block demo_manifest_objects by blast
qed

lemma demo_run_quiet: "logged_errors (main (on_disk (Inr demo) demo_registry) empty_disk) = []"
  by code_simp

lemma demo_run_manifest_file:
  "files (fsys (main (on_disk (Inr demo) demo_registry) empty_disk)) ''./demo/package.json''
     = Some demo_manifest"
  by code_simp

lemma demo_batches:
  "dependenciesPromise (on_disk (Inr demo) demo_registry) demo = map Inr demo_dependencies"
  "devDependenciesPromise (on_disk (Inr demo) demo_registry) = map Inr demo_devDependencies"
  by (simp_all add: dependenciesPromise_def devDependenciesPromise_def dependenciesNames_def
        devDependenciesNames_def on_disk_def demo_def demo_registry_def
        demo_dependencies_def demo_devDependencies_def)

theorem demo_example_witness:
  "prompt (on_disk (Inr demo) demo_registry) = Inr demo
   \<and> dependenciesPromise (on_disk (Inr demo) demo_registry) demo = map Inr demo_dependencies
   \<and> devDependenciesPromise (on_disk (Inr demo) demo_registry) = map Inr demo_devDependencies
   \<and> logged_errors (main (on_disk (Inr demo) demo_registry) empty_disk) = []
   \<and> WriteFileSync ''./demo/app.js'' (baseFileContent demo)
        \<in> set (trace (main (on_disk (Inr demo) demo_registry) empty_disk))
   \<and> WriteFileSync ''./demo/package.json'' demo_manifest
        \<in> set (trace (main (on_disk (Inr demo) demo_registry) empty_disk))
   \<and> WriteFileSync ''./demo/.env'' ''PORT=5000''
        \<in> set (trace (main (on_disk (Inr demo) demo_registry) empty_disk))
   \<and> files (fsys (main (on_disk (Inr demo) demo_registry) empty_disk)) ''./demo/.env''
       = Some ''PORT=5000''
   \<and> files (fsys (main (on_disk (Inr demo) demo_registry) empty_disk)) ''./demo/package.json''
       = Some demo_manifest"
  using demo_example[OF demo_facts(1) demo_batches demo_run_quiet]
    demo_facts(1) demo_batches demo_run_quiet demo_run_files(1) demo_run_manifest_file
  by blast

subsection \<open>Properties kept by every step\<close>








subsection \<open>The error printed is the error of the call made last\<close>








subsection \<open>The calls of \<open>fs\<close> made again\<close>














subsection \<open>The exit code\<close>



































text \<open>
  The runs the amended claim leaves out. When the nodemon lookup is rejected while the
  first batch is awaited, the process ends with code 1 and nothing is printed after the
  lookups; when it is rejected later, \<open>catch\<close> prints the error and the exit code is 0.
\<close>

lemma early_rejection_ends_process:
  "logged_errors
     (main ((on_disk (Inr demo)
               (\<lambda>n. if n = ''nodemon'' then Inl (Error ''404'') else demo_registry n))
            \<lparr>nodemon_settles_first := True\<rparr>) empty_disk) = []"
  "last (trace
     (main ((on_disk (Inr demo)
               (\<lambda>n. if n = ''nodemon'' then Inl (Error ''404'') else demo_registry n))
            \<lparr>nodemon_settles_first := True\<rparr>) empty_disk)) = GetLatestVersion ''nodemon''"
  "exitCode
     (main ((on_disk (Inr demo)
               (\<lambda>n. if n = ''nodemon'' then Inl (Error ''404'') else demo_registry n))
            \<lparr>nodemon_settles_first := True\<rparr>) empty_disk) = 1"
  "logged_errors
     (main (on_disk (Inr demo)
               (\<lambda>n. if n = ''nodemon'' then Inl (Error ''404'') else demo_registry n))
        empty_disk) = [Error ''404'']"
  "exitCode
     (main (on_disk (Inr demo)
               (\<lambda>n. if n = ''nodemon'' then Inl (Error ''404'') else demo_registry n))
        empty_disk) = 0"
  by code_simp+

subsection \<open>The error middleware\<close>

text \<open>
  Claim C2, amended. For every error object the middleware answers with the status
  \<open>err.statusCode\<close>, or 500 when that is falsy, and with a JSON body whose \<open>success\<close> is
  false and whose \<open>message\<close> is \<open>err.message\<close>, or \<open>"Internal Server Error"\<close> when that is
  falsy. The body has an \<open>error\<close> property exactly when \<open>envMode\<close> is \<open>"DEVELOPMENT"\<close>, and
  it is then the error object with both defaults filled in. A primitive value for \<open>err\<close>
  makes the middleware throw a \<open>TypeError\<close>.
\<close>

theorem error_middleware_reply:
  "(case errorMiddleware mode (Object e) of
      Inl x \<Rightarrow> False
    | Inr r \<Rightarrow>
        status r = (if truthy (statusCode e) then statusCode e else JNumber 500)
        \<and> success (json r) = False
        \<and> response.message (json r)
            = (if truthy (err.message e) then err.message e else JString ''Internal Server Error'')
        \<and> (error (json r) \<noteq> None \<longleftrightarrow> mode = ''DEVELOPMENT'')
        \<and> (mode = ''DEVELOPMENT'' \<longrightarrow>
             error (json r) = Some (e\<lparr>err.message := response.message (json r),
                                       statusCode := status r\<rparr>)))
   \<and> errorMiddleware mode (Primitive p) = Inl TypeError"
  by (simp add: errorMiddleware_def js_or_def Let_def)

theorem error_middleware_reply_witness:
  "\<not> truthy (statusCode bare) \<and> \<not> truthy (err.message bare)
   \<and> (case errorMiddleware ''DEVELOPMENT'' (Object bare) of
        Inl x \<Rightarrow> False
      | Inr r \<Rightarrow>
          status r = JNumber 500
          \<and> success (json r) = False
          \<and> response.message (json r) = JString ''Internal Server Error''
          \<and> error (json r) = Some \<lparr>err.message = JString ''Internal Server Error'',
                                    statusCode = JNumber 500\<rparr>)
   \<and> errorMiddleware ''DEVELOPMENT'' (Primitive (JString ''boom'')) = Inl TypeError"
proof -
  have f: "\<not> truthy (statusCode bare)" "\<not> truthy (err.message bare)"
    by (simp_all add: bare_def)
  show ?thesis
    using error_middleware_reply
      [where mode = "''DEVELOPMENT''" and e = bare and p = "JString ''boom''"] f
    by (cases "errorMiddleware ''DEVELOPMENT'' (Object bare)") (auto simp: bare_def)
qed

text \<open>
  Claim C2 as it is written fails: with \<open>NODE_ENV=TEST\<close> the mode is not the production
  mode, and the body has no \<open>error\<close> property; and for the error value \<open>"boom"\<close>, a
  string, there is no response at all.
\<close>

theorem non_production_mode_counterexample:
  "envMode (Some ''TEST'') = ''TEST''
   \<and> envMode (Some ''TEST'') \<noteq> ''PRODUCTION''
   \<and> errorMiddleware (envMode (Some ''TEST'')) (Object boom)
       = Inr \<lparr>status = JNumber 400,
              json = \<lparr>success = False, message = JString ''boom'', error = None\<rparr>\<rparr>
   \<and> errorMiddleware (envMode (Some ''TEST'')) (Primitive (JString ''boom'') :: unit passed)
       = Inl TypeError"
  by (simp add: envMode_def trim_def is_space_def errorMiddleware_def js_or_def boom_def)

subsection \<open>The manifest is not a JSON text\<close>

lemma skip_ws_Cons:
  assumes "skip_ws s = d # r"
  shows "\<exists>w. s = w @ d # r \<and> list_all is_ws w"
proof -
  have "s = takeWhile is_ws s @ dropWhile is_ws s" by simp
  with assms have "s = takeWhile is_ws s @ d # r" by (simp add: skip_ws_def)
  moreover have "list_all is_ws (takeWhile is_ws s)"
    by (auto simp: list_all_iff dest: set_takeWhileD)
  ultimately show ?thesis by blast
qed

lemma skip_ws_all: "skip_ws s = [] \<Longrightarrow> list_all is_ws s"
  by (simp add: skip_ws_def list_all_iff)

lemma rstrip_ws: "list_all is_ws w \<Longrightarrow> rstrip (a @ w) = rstrip a"
  by (simp add: rstrip_def dropWhile_append list_all_iff)

lemma rstrip_keep: "a \<noteq> [] \<Longrightarrow> \<not> is_ws (last a) \<Longrightarrow> rstrip a = a"
  by (cases a rule: rev_cases) (simp_all add: rstrip_def)

lemma rstrip_append:
  assumes "rstrip b \<noteq> []"
  shows "rstrip (a @ b) = a @ rstrip b"
proof -
  from assms have "\<not> (\<forall>x\<in>set (rev b). is_ws x)"
    by (simp add: rstrip_def)
  then have "dropWhile is_ws (rev b @ rev a) = dropWhile is_ws (rev b) @ rev a"
    by (simp only: dropWhile_append if_False)
  then show ?thesis by (simp add: rstrip_def)
qed

lemma rstrip_last: "rstrip a \<noteq> [] \<Longrightarrow> \<not> is_ws (last (rstrip a))"
  by (simp add: rstrip_def last_rev hd_dropWhile)

lemma not_ws: "\<not> is_ws (CHR ''{'')" "\<not> is_ws (CHR ''}'')" "\<not> is_ws (CHR '','')"
  "\<not> is_ws (CHR '']'')" "\<not> is_ws (CHR 0x22)" "is_ws (CHR ''\<newline>'')" "is_ws (CHR '' '')"
  by (simp_all add: is_ws_def)

lemma closesI:
  "u \<noteq> [] \<Longrightarrow> \<not> is_ws (last u) \<Longrightarrow> last u \<noteq> CHR '','' \<Longrightarrow> last u \<noteq> CHR ''}'' \<Longrightarrow> closes u"
  by (simp add: closes_def)

lemma string_body_shape:
  "string_body s = Some r \<Longrightarrow> \<exists>u. s = u @ r \<and> u \<noteq> [] \<and> last u = CHR 0x22"
proof (induction s arbitrary: r rule: string_body.induct)
  case 1
  then show ?case by simp
next
  case (2 c cs)
  show ?case
  proof (cases "c = CHR 0x22")
    case True
    with 2(4) have "c # cs = [c] @ r" "last [c] = CHR 0x22" by simp_all
    then show ?thesis by blast
  next
    case q: False
    show ?thesis
    proof (cases "c = CHR 0x5C")
      case True
      show ?thesis
      proof (cases cs)
        case Nil
        with 2(4) q True show ?thesis by simp
      next
        case (Cons e t)
        show ?thesis
        proof (cases "e \<in> set [CHR 0x22, CHR 0x5C, CHR ''/'', CHR ''b'', CHR ''f'', CHR ''n'', CHR ''r'', CHR ''t'']")
          case e: True
          with 2(4) q True Cons have "string_body t = Some r" by simp
          from 2(1)[OF q True Cons e this] obtain u where "t = u @ r" "u \<noteq> []" "last u = CHR 0x22"
            by blast
          then have "c # cs = (c # e # u) @ r" "last (c # e # u) = CHR 0x22"
            using Cons by simp_all
          then show ?thesis by blast
        next
          case e: False
          show ?thesis
          proof (cases "e = CHR ''u''")
            case False
            with 2(4) q True Cons e show ?thesis by simp
          next
            case u: True
            from 2(4) q True Cons e u obtain h1 h2 h3 h4 t' where
              t: "t = h1 # h2 # h3 # h4 # t'"
              and h: "is_hex h1 \<and> is_hex h2 \<and> is_hex h3 \<and> is_hex h4"
              and b: "string_body t' = Some r"
              by (auto split: list.splits if_splits)
            from 2(2)[OF q True Cons e u t refl refl refl h b] obtain v where
              "t' = v @ r" "v \<noteq> []" "last v = CHR 0x22" by blast
            then have "c # cs = (c # e # h1 # h2 # h3 # h4 # v) @ r"
              "last (c # e # h1 # h2 # h3 # h4 # v) = CHR 0x22"
              using Cons t by simp_all
            then show ?thesis by blast
          qed
        qed
      qed
    next
      case b: False
      show ?thesis
      proof (cases "(of_char c :: nat) < 0x20")
        case True
        with 2(4) q b show ?thesis by simp
      next
        case False
        with 2(4) q b have "string_body cs = Some r" by simp
        from 2(3)[OF q b False this] obtain u where "cs = u @ r" "u \<noteq> []" "last u = CHR 0x22"
          by blast
        then have "c # cs = (c # u) @ r" "last (c # u) = CHR 0x22" by simp_all
        then show ?thesis by blast
      qed
    qed
  qed
qed

lemma parse_string_shape:
  "parse_string s = Some r \<Longrightarrow> \<exists>u. s = u @ r \<and> u \<noteq> [] \<and> last u = CHR 0x22"
proof (cases s)
  case Nil
  then show "parse_string s = Some r \<Longrightarrow> ?thesis" by (simp add: parse_string_def)
next
  case (Cons c cs)
  assume "parse_string s = Some r"
  with Cons have "c = CHR 0x22" "string_body cs = Some r"
    by (simp_all add: parse_string_def split: if_splits)
  from string_body_shape[OF this(2)] obtain u where "cs = u @ r" "u \<noteq> []" "last u = CHR 0x22"
    by blast
  then have "s = (c # u) @ r" "last (c # u) = CHR 0x22" using Cons by simp_all
  then show ?thesis by blast
qed

lemma digits_shape: "\<exists>u. s = u @ dropWhile is_digit s \<and> (u = [] \<or> is_digit (last u))"
proof -
  have "s = takeWhile is_digit s @ dropWhile is_digit s" by simp
  moreover have "takeWhile is_digit s = [] \<or> is_digit (last (takeWhile is_digit s))"
    by (metis last_in_set set_takeWhileD)
  ultimately show ?thesis by blast
qed

text \<open>What a part of a number has read: nothing, or a text that ends with a digit.\<close>

lemma parse_int_shape:
  assumes "parse_int s = Some r"
  shows "\<exists>u. s = u @ r \<and> u \<noteq> [] \<and> is_digit (last u)"
proof (cases s)
  case Nil
  with assms show ?thesis by (simp add: parse_int_def)
next
  case (Cons c cs)
  show ?thesis
  proof (cases "c = CHR ''0''")
    case True
    with assms Cons have "s = [c] @ r" "is_digit (last [c])"
      by (simp_all add: parse_int_def is_digit_def)
    then show ?thesis by blast
  next
    case False
    with assms Cons have c: "is_digit c" and r: "r = dropWhile is_digit cs"
      by (simp_all add: parse_int_def split: if_splits)
    from digits_shape[of cs] obtain u where "cs = u @ r" "u = [] \<or> is_digit (last u)"
      using r by blast
    then have "s = (c # u) @ r" "is_digit (last (c # u))" using Cons c by auto
    then show ?thesis by blast
  qed
qed

lemma parse_frac_shape:
  assumes "parse_frac s = Some r"
  shows "\<exists>u. s = u @ r \<and> (u = [] \<or> is_digit (last u))"
proof (cases s)
  case Nil
  with assms show ?thesis by (simp add: parse_frac_def)
next
  case (Cons c cs)
  show ?thesis
  proof (cases "c = CHR ''.''")
    case False
    with assms Cons show ?thesis by (simp add: parse_frac_def)
  next
    case True
    with assms Cons obtain d t where cs: "cs = d # t" and d: "is_digit d"
      and r: "r = dropWhile is_digit t"
      by (auto simp: parse_frac_def split: list.splits if_splits)
    from digits_shape[of t] obtain u where "t = u @ r" "u = [] \<or> is_digit (last u)"
      using r by blast
    then have "s = (c # d # u) @ r" "is_digit (last (c # d # u))" using Cons cs d by auto
    then show ?thesis by blast
  qed
qed

lemma parse_exp_shape:
  assumes "parse_exp s = Some r"
  shows "\<exists>u. s = u @ r \<and> (u = [] \<or> is_digit (last u))"
proof (cases s)
  case Nil
  with assms show ?thesis by (simp add: parse_exp_def)
next
  case (Cons c cs)
  show ?thesis
  proof (cases "c = CHR ''e'' \<or> c = CHR ''E''")
    case False
    with assms Cons show ?thesis by (simp add: parse_exp_def)
  next
    case True
    define cs' where "cs' = (case cs of [] \<Rightarrow> cs
        | g # r \<Rightarrow> if g = CHR ''+'' \<or> g = CHR ''-'' then r else cs)"
    have "\<exists>p. cs = p @ cs'"
      by (cases cs) (auto simp: cs'_def)
    then obtain p where p: "cs = p @ cs'" by blast
    from assms Cons True obtain d t where cs: "cs' = d # t" and d: "is_digit d"
      and r: "r = dropWhile is_digit t"
      by (auto simp: parse_exp_def cs'_def split: list.splits if_splits)
    from digits_shape[of t] obtain u where "t = u @ r" "u = [] \<or> is_digit (last u)"
      using r by blast
    then have "s = (c # p @ d # u) @ r" "is_digit (last (c # p @ d # u))"
      using Cons cs d p by auto
    then show ?thesis by blast
  qed
qed

lemma parse_number_shape:
  assumes "parse_number s = Some r"
  shows "\<exists>u. s = u @ r \<and> u \<noteq> [] \<and> is_digit (last u)"
proof -
  define s0 where "s0 = (case s of [] \<Rightarrow> s | c # cs \<Rightarrow> if c = CHR ''-'' then cs else s)"
  have "\<exists>p. s = p @ s0"
    by (cases s) (auto simp: s0_def)
  then obtain p where p: "s = p @ s0" by blast
  from assms obtain s1 s2 where 1: "parse_int s0 = Some s1" and 2: "parse_frac s1 = Some s2"
    and 3: "parse_exp s2 = Some r"
    by (auto simp: parse_number_def s0_def[symmetric] split: option.splits)
  from parse_int_shape[OF 1] obtain u1 where u1: "s0 = u1 @ s1" "u1 \<noteq> []" "is_digit (last u1)"
    by blast
  from parse_frac_shape[OF 2] obtain u2 where u2: "s1 = u2 @ s2" "u2 = [] \<or> is_digit (last u2)"
    by blast
  from parse_exp_shape[OF 3] obtain u3 where u3: "s2 = u3 @ r" "u3 = [] \<or> is_digit (last u3)"
    by blast
  have "s = (p @ u1 @ u2 @ u3) @ r" using p u1 u2 u3 by simp
  moreover have "p @ u1 @ u2 @ u3 \<noteq> []" using u1 by simp
  moreover have "is_digit (last (p @ u1 @ u2 @ u3))" using u1 u2 u3 by (auto simp: last_append)
  ultimately show ?thesis by blast
qed

lemma parse_literal_shape:
  assumes "parse_literal s = Some r"
  shows "\<exists>u. s = u @ r \<and> u \<noteq> [] \<and> (last u = CHR ''e'' \<or> last u = CHR ''l'')"
proof -
  from assms consider "prefix ''true'' s" "r = drop 4 s" | "prefix ''false'' s" "r = drop 5 s"
    | "prefix ''null'' s" "r = drop 4 s"
    by (auto simp: parse_literal_def split: if_splits)
  then show ?thesis
  proof cases
    case 1
    then have "s = ''true'' @ r" by (auto simp: prefix_def)
    then show ?thesis by force
  next
    case 2
    then have "s = ''false'' @ r" by (auto simp: prefix_def)
    then show ?thesis by force
  next
    case 3
    then have "s = ''null'' @ r" by (auto simp: prefix_def)
    then show ?thesis by force
  qed
qed

lemma digit_plain: "is_digit c \<Longrightarrow> \<not> is_ws c \<and> c \<noteq> CHR '','' \<and> c \<noteq> CHR ''}''"
  by (auto simp: is_digit_def is_ws_def)

lemma skip_ws_prefix: "\<exists>w. s = w @ skip_ws s \<and> list_all is_ws w"
proof -
  have "s = takeWhile is_ws s @ skip_ws s" by (simp add: skip_ws_def)
  moreover have "list_all is_ws (takeWhile is_ws s)"
    by (auto simp: list_all_iff dest: set_takeWhileD)
  ultimately show ?thesis by blast
qed

lemma closes_object_empty:
  assumes "list_all is_ws w"
  shows "closes (CHR ''{'' # w @ [CHR ''}''])"
proof -
  have "rstrip (CHR ''{'' # w) = [CHR ''{'']"
    using rstrip_ws[OF assms, of "[CHR ''{'']"] rstrip_keep[of "[CHR ''{'']"]
    by (simp add: not_ws)
  then show ?thesis
    by (simp add: closes_def not_ws butlast_append)
qed

lemma closes_object:
  assumes "inner m"
  shows "closes (CHR ''{'' # w @ m @ [CHR ''}''])"
proof -
  from assms have m: "rstrip m \<noteq> []" "last (rstrip m) \<noteq> CHR '',''"
    by (simp_all add: inner_def)
  have "butlast (CHR ''{'' # w @ m @ [CHR ''}'']) = (CHR ''{'' # w) @ m"
    by (simp add: butlast_append)
  moreover have "rstrip ((CHR ''{'' # w) @ m) = (CHR ''{'' # w) @ rstrip m"
    by (rule rstrip_append[OF m(1)])
  ultimately show ?thesis
    using m by (simp add: closes_def not_ws)
qed

lemma inner_last_member:
  assumes "closes v" and "list_all is_ws w"
  shows "inner (a @ v @ w)"
proof -
  from assms(1) have v: "v \<noteq> []" "\<not> is_ws (last v)" "last v \<noteq> CHR '',''"
    by (simp_all add: closes_def)
  have "rstrip (a @ v @ w) = rstrip (a @ v)"
    using rstrip_ws[OF assms(2), of "a @ v"] by simp
  also have "\<dots> = a @ v"
    using v by (intro rstrip_keep) simp_all
  finally show ?thesis using v by (simp add: inner_def)
qed

lemma inner_more_members:
  assumes "inner m"
  shows "inner (a @ m)"
  using assms rstrip_append[of m a] by (simp add: inner_def)

lemma value_step:
  assumes members: "\<And>s r. parse_members n s = Some r \<Longrightarrow> \<exists>u. s = u @ CHR ''}'' # r \<and> inner u"
    and elements: "\<And>s r. parse_elements n s = Some r \<Longrightarrow> \<exists>u. s = u @ CHR '']'' # r"
    and p: "parse_value (Suc n) s = Some r"
  shows "\<exists>u. s = u @ r \<and> closes u"
proof (cases s)
  case Nil
  with p show ?thesis by simp
next
  case (Cons c cs)
  consider (obj) "c = CHR ''{''" | (arr) "c \<noteq> CHR ''{''" "c = CHR ''[''"
    | (str) "c \<noteq> CHR ''{''" "c \<noteq> CHR ''[''" "c = CHR 0x22"
    | (num) "c \<noteq> CHR ''{''" "c \<noteq> CHR ''[''" "c \<noteq> CHR 0x22" "c = CHR ''-'' \<or> is_digit c"
    | (lit) "c \<noteq> CHR ''{''" "c \<noteq> CHR ''[''" "c \<noteq> CHR 0x22" "\<not> (c = CHR ''-'' \<or> is_digit c)"
    by blast
  then show ?thesis
  proof cases
    case obj
    with p Cons obtain d r0 where sk: "skip_ws cs = d # r0"
      and d: "if d = CHR ''}'' then r = r0 else parse_members n (d # r0) = Some r"
      by (auto split: list.splits if_splits)
    from skip_ws_Cons[OF sk] obtain w where w: "cs = w @ d # r0" "list_all is_ws w" by blast
    show ?thesis
    proof (cases "d = CHR ''}''")
      case True
      with d w Cons obj have "s = (CHR ''{'' # w @ [CHR ''}'']) @ r" by simp
      with closes_object_empty[OF w(2)] show ?thesis by blast
    next
      case False
      with d have "parse_members n (d # r0) = Some r" by simp
      from members[OF this] obtain m where m: "d # r0 = m @ CHR ''}'' # r" "inner m" by blast
      with w Cons obj have "s = (CHR ''{'' # w @ m @ [CHR ''}'']) @ r" by simp
      with closes_object[OF m(2)] show ?thesis by blast
    qed
  next
    case arr
    with p Cons obtain d r0 where sk: "skip_ws cs = d # r0"
      and d: "if d = CHR '']'' then r = r0 else parse_elements n (d # r0) = Some r"
      by (auto split: list.splits if_splits)
    from skip_ws_Cons[OF sk] obtain w where w: "cs = w @ d # r0" by blast
    have "\<exists>m. d # r0 = m @ CHR '']'' # r"
    proof (cases "d = CHR '']''")
      case True
      with d have "d # r0 = [] @ CHR '']'' # r" by simp
      then show ?thesis by blast
    next
      case False
      with d have "parse_elements n (d # r0) = Some r" by simp
      from elements[OF this] show ?thesis .
    qed
    then obtain m where "d # r0 = m @ CHR '']'' # r" by blast
    with w Cons have "s = (c # w @ m @ [CHR '']'']) @ r" by simp
    moreover have "closes (c # w @ m @ [CHR '']''])"
      by (rule closesI) (simp_all add: not_ws)
    ultimately show ?thesis by blast
  next
    case str
    with p Cons have "string_body cs = Some r" by simp
    from string_body_shape[OF this] obtain u where u: "cs = u @ r" "u \<noteq> []" "last u = CHR 0x22"
      by blast
    then have "s = (c # u) @ r" using Cons by simp
    moreover have "closes (c # u)"
      using u by (intro closesI) (simp_all add: not_ws)
    ultimately show ?thesis by blast
  next
    case num
    with p Cons have "parse_number s = Some r" by simp
    from parse_number_shape[OF this] obtain u where u: "s = u @ r" "u \<noteq> []" "is_digit (last u)"
      by blast
    then have "closes u"
      using digit_plain[of "last u"] by (intro closesI) simp_all
    with u show ?thesis by blast
  next
    case lit
    with p Cons have "parse_literal s = Some r" by simp
    from parse_literal_shape[OF this] obtain u where
      u: "s = u @ r" "u \<noteq> []" "last u = CHR ''e'' \<or> last u = CHR ''l''"
      by blast
    then have "closes u"
      by (intro closesI) (auto simp: is_ws_def)
    with u show ?thesis by blast
  qed
qed

lemma members_step:
  assumes val: "\<And>s r. parse_value n s = Some r \<Longrightarrow> \<exists>u. s = u @ r \<and> closes u"
    and members: "\<And>s r. parse_members n s = Some r \<Longrightarrow> \<exists>u. s = u @ CHR ''}'' # r \<and> inner u"
    and p: "parse_members (Suc n) s = Some r"
  shows "\<exists>u. s = u @ CHR ''}'' # r \<and> inner u"
proof -
  from p obtain r1 r2 r3 d r4 where 1: "parse_string s = Some r1"
    and 2: "skip_ws r1 = CHR '':'' # r2"
    and 3: "parse_value n (skip_ws r2) = Some r3"
    and 4: "skip_ws r3 = d # r4"
    and 5: "if d = CHR '','' then parse_members n (skip_ws r4) = Some r
            else d = CHR ''}'' \<and> r = r4"
    by (auto split: option.splits list.splits if_splits)
  from parse_string_shape[OF 1] obtain k where k: "s = k @ r1" by blast
  from skip_ws_Cons[OF 2] obtain w1 where w1: "r1 = w1 @ CHR '':'' # r2" by blast
  from skip_ws_prefix[of r2] obtain w2 where w2: "r2 = w2 @ skip_ws r2" by blast
  from val[OF 3] obtain v where v: "skip_ws r2 = v @ r3" "closes v" by blast
  from skip_ws_Cons[OF 4] obtain w3 where w3: "r3 = w3 @ d # r4" "list_all is_ws w3" by blast
  define a where "a = k @ w1 @ CHR '':'' # w2"
  have s: "s = (a @ v @ w3) @ d # r4"
    using k w1 w2 v(1) w3(1) by (simp add: a_def)
  show ?thesis
  proof (cases "d = CHR '',''")
    case False
    with 5 have "d = CHR ''}''" "r = r4" by simp_all
    with s inner_last_member[OF v(2) w3(2), of a] show ?thesis by blast
  next
    case True
    with 5 have "parse_members n (skip_ws r4) = Some r" by simp
    from members[OF this] obtain m where m: "skip_ws r4 = m @ CHR ''}'' # r" "inner m" by blast
    from skip_ws_prefix[of r4] obtain w4 where w4: "r4 = w4 @ skip_ws r4" by blast
    have "s = ((a @ v @ w3 @ d # w4) @ m) @ CHR ''}'' # r"
      using s m(1) w4 by simp
    with inner_more_members[OF m(2), of "a @ v @ w3 @ d # w4"] show ?thesis by blast
  qed
qed

lemma elements_step:
  assumes val: "\<And>s r. parse_value n s = Some r \<Longrightarrow> \<exists>u. s = u @ r \<and> closes u"
    and elements: "\<And>s r. parse_elements n s = Some r \<Longrightarrow> \<exists>u. s = u @ CHR '']'' # r"
    and p: "parse_elements (Suc n) s = Some r"
  shows "\<exists>u. s = u @ CHR '']'' # r"
proof -
  from p obtain r1 d r2 where 1: "parse_value n (skip_ws s) = Some r1"
    and 2: "skip_ws r1 = d # r2"
    and 3: "if d = CHR '','' then parse_elements n (skip_ws r2) = Some r
            else d = CHR '']'' \<and> r = r2"
    by (auto split: option.splits list.splits if_splits)
  from skip_ws_prefix[of s] obtain w0 where w0: "s = w0 @ skip_ws s" by blast
  from val[OF 1] obtain v where v: "skip_ws s = v @ r1" by blast
  from skip_ws_Cons[OF 2] obtain w1 where w1: "r1 = w1 @ d # r2" by blast
  have s: "s = (w0 @ v @ w1) @ d # r2"
    using w0 v w1 by simp
  show ?thesis
  proof (cases "d = CHR '',''")
    case False
    with 3 s show ?thesis by auto
  next
    case True
    with 3 have "parse_elements n (skip_ws r2) = Some r" by simp
    from elements[OF this] obtain m where m: "skip_ws r2 = m @ CHR '']'' # r" by blast
    from skip_ws_prefix[of r2] obtain w2 where w2: "r2 = w2 @ skip_ws r2" by blast
    have "s = (w0 @ v @ w1 @ d # w2 @ m) @ CHR '']'' # r"
      using s m w2 by simp
    then show ?thesis by blast
  qed
qed

lemma parse_shape:
  "(\<forall>s r. parse_value n s = Some r \<longrightarrow> (\<exists>u. s = u @ r \<and> closes u))
   \<and> (\<forall>s r. parse_members n s = Some r \<longrightarrow> (\<exists>u. s = u @ CHR ''}'' # r \<and> inner u))
   \<and> (\<forall>s r. parse_elements n s = Some r \<longrightarrow> (\<exists>u. s = u @ CHR '']'' # r))"
proof (induction n)
  case 0
  show ?case by simp
next
  case (Suc n)
  have v: "\<exists>u. s = u @ r \<and> closes u" if "parse_value n s = Some r" for s r
    using Suc[THEN conjunct1, THEN spec, THEN spec, THEN mp, OF that] .
  have m: "\<exists>u. s = u @ CHR ''}'' # r \<and> inner u" if "parse_members n s = Some r" for s r
    using Suc[THEN conjunct2, THEN conjunct1, THEN spec, THEN spec, THEN mp, OF that] .
  have e: "\<exists>u. s = u @ CHR '']'' # r" if "parse_elements n s = Some r" for s r
    using Suc[THEN conjunct2, THEN conjunct2, THEN spec, THEN spec, THEN mp, OF that] .
  show ?case
  proof (intro conjI allI impI)
    fix s r assume p: "parse_value (Suc n) s = Some r"
    show "\<exists>u. s = u @ r \<and> closes u"
    proof (rule value_step)
      show "\<exists>u. s' = u @ CHR ''}'' # r' \<and> inner u" if "parse_members n s' = Some r'" for s' r'
        using that by (rule m)
      show "\<exists>u. s' = u @ CHR '']'' # r'" if "parse_elements n s' = Some r'" for s' r'
        using that by (rule e)
      show "parse_value (Suc n) s = Some r" by (rule p)
    qed
  next
    fix s r assume p: "parse_members (Suc n) s = Some r"
    show "\<exists>u. s = u @ CHR ''}'' # r \<and> inner u"
    proof (rule members_step)
      show "\<exists>u. s' = u @ r' \<and> closes u" if "parse_value n s' = Some r'" for s' r'
        using that by (rule v)
      show "\<exists>u. s' = u @ CHR ''}'' # r' \<and> inner u" if "parse_members n s' = Some r'" for s' r'
        using that by (rule m)
      show "parse_members (Suc n) s = Some r" by (rule p)
    qed
  next
    fix s r assume p: "parse_elements (Suc n) s = Some r"
    show "\<exists>u. s = u @ CHR '']'' # r"
    proof (rule elements_step)
      show "\<exists>u. s' = u @ r' \<and> closes u" if "parse_value n s' = Some r'" for s' r'
        using that by (rule v)
      show "\<exists>u. s' = u @ CHR '']'' # r'" if "parse_elements n s' = Some r'" for s' r'
        using that by (rule e)
      show "parse_elements (Suc n) s = Some r" by (rule p)
    qed
  qed
qed

text \<open>No JSON text ends with a comma, white space and a closing brace.\<close>

lemma trailing_comma_invalid:
  assumes "list_all is_ws w"
  shows "\<not> valid_json (x @ CHR '','' # w @ [CHR ''}''])"
proof
  let ?t = "x @ CHR '','' # w @ [CHR ''}'']"
  assume "valid_json ?t"
  then obtain r where p: "parse_value (length ?t) (skip_ws ?t) = Some r" and r: "skip_ws r = []"
    by (auto simp: valid_json_def split: option.splits)
  from parse_shape[of "length ?t"] p obtain u where u: "skip_ws ?t = u @ r" "closes u" by blast
  from skip_ws_prefix[of ?t] obtain w0 where w0: "?t = w0 @ skip_ws ?t" by blast
  have t: "?t = w0 @ u @ r" using w0 u(1) by simp
  have "r = []"
  proof (rule ccontr)
    assume "r \<noteq> []"
    with t have "last ?t = last r" by (metis append_is_Nil_conv last_appendR)
    moreover have "is_ws (last r)"
      using skip_ws_all[OF r] \<open>r \<noteq> []\<close> by (simp add: list_all_iff)
    ultimately show False using not_ws(2) by simp
  qed
  with t have t': "?t = w0 @ u" by simp
  from u(2) have "u \<noteq> []" by (simp add: closes_def)
  with t' have "last u = CHR ''}''" by (metis last_appendR last_snoc append_Cons append_assoc)
  with u(2) have b: "rstrip (butlast u) \<noteq> []" "last (rstrip (butlast u)) \<noteq> CHR '',''"
    by (simp_all add: closes_def)
  have "butlast ?t = w0 @ butlast u"
    using t' \<open>u \<noteq> []\<close> by (metis butlast_append)
  moreover have "butlast ?t = (x @ [CHR '','']) @ w"
    by (simp add: butlast_append)
  ultimately have "rstrip (w0 @ butlast u) = rstrip ((x @ [CHR '','']) @ w)" by simp
  also have "\<dots> = rstrip (x @ [CHR '',''])" by (rule rstrip_ws[OF assms])
  also have "\<dots> = x @ [CHR '','']" by (rule rstrip_keep) (simp_all add: not_ws)
  finally have "last (rstrip (w0 @ butlast u)) = CHR '',''" by simp
  with rstrip_append[OF b(1), of w0] b show False by simp
qed

lemma manifest_tail:
  "\<exists>pre. packageJsonContent projectName ds dd
     = pre @ join '','' (map entry dd) @ ''\<newline>        },\<newline>    }''"
  unfolding packageJsonContent_def
  by (rule exI[of _ "''{\<newline>'' @ _"]) simp

text \<open>
  Claim C9. Whatever the project name and the descriptors, the manifest text ends with the
  entries of the devDependencies object, a new line, the closing brace of that object, a
  comma, a new line with four spaces and the final closing brace; and no text that ends
  with a comma, white space and a closing brace is a JSON text.
\<close>

theorem manifest_trailing_comma:
  "(\<exists>pre. packageJsonContent projectName ds dd
       = pre @ join '','' (map entry dd) @ ''\<newline>        },\<newline>    }'')
   \<and> \<not> valid_json (packageJsonContent projectName ds dd)"
proof
  show "\<exists>pre. packageJsonContent projectName ds dd
       = pre @ join '','' (map entry dd) @ ''\<newline>        },\<newline>    }''"
    by (rule manifest_tail)
  from manifest_tail obtain pre where
    "packageJsonContent projectName ds dd
       = pre @ join '','' (map entry dd) @ ''\<newline>        },\<newline>    }''"
    by blast
  then have "packageJsonContent projectName ds dd
       = (pre @ join '','' (map entry dd) @ ''\<newline>        }'') @ CHR '','' # ''\<newline>    '' @ [CHR ''}'']"
    by simp
  moreover have "list_all is_ws ''\<newline>    ''"
    by (simp add: is_ws_def)
  ultimately show "\<not> valid_json (packageJsonContent projectName ds dd)"
    using trailing_comma_invalid by metis
qed

lemma demo_manifest_without_comma: "valid_json (drop_last_comma demo_manifest)"
  by code_simp

theorem manifest_trailing_comma_witness:
  "(\<exists>pre. demo_manifest
       = pre @ join '','' (map entry demo_devDependencies) @ ''\<newline>        },\<newline>    }'')
   \<and> \<not> valid_json demo_manifest
   \<and> valid_json (drop_last_comma demo_manifest)"
  using manifest_trailing_comma[of "''demo''" demo_dependencies demo_devDependencies]
    demo_manifest_without_comma
  by (simp add: demo_texts(3))

end
